theory Spec2Isabelle
  imports Complex_Main
begin

section \<open>Python and operating-system primitives\<close>

text \<open>
  The notebook \<^verbatim>\<open>test2.ipynb\<close> is modelled cell by cell. Python exceptions are
  values of the type \<open>error\<close>; a computation that may raise returns \<open>error + 'a\<close>.
\<close>

datatype error =
    ValueError string
  | IndexError
  | ZeroDivisionError
  | AttributeError
  | RuntimeError
  | LibraryError

text \<open>Sequencing of computations that may raise.\<close>

definition and_then :: "error + 'a \<Rightarrow> ('a \<Rightarrow> error + 'b) \<Rightarrow> error + 'b" where
  "and_then r f = (case r of Inl e \<Rightarrow> Inl e | Inr x \<Rightarrow> f x)"

text \<open>Decimal formatting of a non-negative integer, as the f-string \<^verbatim>\<open>f"{i}"\<close> does.\<close>

definition digit_char :: "nat \<Rightarrow> char" where
  "digit_char d = char_of (48 + d)"

fun str_nat :: "nat \<Rightarrow> string" where
  "str_nat n = (if n < 10 then [digit_char n] else str_nat (n div 10) @ [digit_char (n mod 10)])"

declare str_nat.simps [simp del]

text \<open>
  The file system is seen through two functions of the \<^verbatim>\<open>os.path\<close> module:
  \<^verbatim>\<open>os.path.join\<close> and \<^verbatim>\<open>os.path.exists\<close>. Both depend on the platform and on the
  disk, so they are parameters of the model.
\<close>

record os_path =
  path_join :: "string \<Rightarrow> string \<Rightarrow> string"
  path_exists :: "string \<Rightarrow> bool"

text \<open>\<^verbatim>\<open>posixpath.join\<close> for two components, used for concrete instances.\<close>

definition posix_join :: "string \<Rightarrow> string \<Rightarrow> string" where
  "posix_join a b =
     (if b \<noteq> [] \<and> hd b = CHR ''/'' then b
      else if a = [] \<or> last a = CHR ''/'' then a @ b
      else a @ ''/'' @ b)"

section \<open>HyperspectralDataset: the sample indexer\<close>

text \<open>
  The attributes of a \<^verbatim>\<open>HyperspectralDataset\<close>. The constructor also stores its
  \<^verbatim>\<open>transform\<close> argument, which no method reads; it is left out. A label is an index
  into \<^verbatim>\<open>class_labels\<close>, a natural number.
\<close>

record dataset =
  data_dir :: string
  class_labels :: "string list"
  file_paths :: "string list"
  labels :: "nat list"

definition the_class_labels :: "string list" where
  "the_class_labels =
     [''canola'', ''soybean'', ''sugarbeet'', ''kochia'',
      ''common_ragweed'', ''common_waterhemp'', ''redroot_pigweed'']"

text \<open>The file name \<^verbatim>\<open>f"{label}_{i}.npy"\<close>.\<close>

definition sample_name :: "string \<Rightarrow> nat \<Rightarrow> string" where
  "sample_name label i = label @ ''_'' @ str_nat i @ ''.npy''"

text \<open>
  The body of the inner loop: the two lists \<^verbatim>\<open>self.file_paths\<close> and \<^verbatim>\<open>self.labels\<close>
  are the accumulator, and both are appended to exactly when the file exists.
\<close>

definition probe_sample ::
  "'a os_path_scheme \<Rightarrow> string \<Rightarrow> nat \<Rightarrow> string \<Rightarrow> nat \<Rightarrow>
   string list \<times> nat list \<Rightarrow> string list \<times> nat list" where
  "probe_sample os dir label_idx label i acc =
     (let file_path = path_join os dir (sample_name label i)
      in if path_exists os file_path
         then (fst acc @ [file_path], snd acc @ [label_idx])
         else acc)"

text \<open>The inner loop \<^verbatim>\<open>for i in range(1, 21)\<close>.\<close>

definition probe_class ::
  "'a os_path_scheme \<Rightarrow> string \<Rightarrow> nat \<times> string \<Rightarrow>
   string list \<times> nat list \<Rightarrow> string list \<times> nat list" where
  "probe_class os dir e acc = fold (probe_sample os dir (fst e) (snd e)) [1..<21] acc"

text \<open>\<^verbatim>\<open>HyperspectralDataset.__init__\<close>: the outer loop runs over \<^verbatim>\<open>enumerate(self.class_labels)\<close>.\<close>

definition HyperspectralDataset :: "'a os_path_scheme \<Rightarrow> string \<Rightarrow> dataset" where
  "HyperspectralDataset os dir =
     (let acc = fold (probe_class os dir) (enumerate 0 the_class_labels) ([], [])
      in \<lparr>data_dir = dir, class_labels = the_class_labels,
          file_paths = fst acc, labels = snd acc\<rparr>)"

text \<open>\<^verbatim>\<open>HyperspectralDataset.__len__\<close>.\<close>

definition len :: "dataset \<Rightarrow> nat" where
  "len ds = length (file_paths ds)"

text \<open>
  The candidates that the two loops probe, in the order in which they probe them, and
  the ones that are kept.
\<close>

definition candidates :: "'a os_path_scheme \<Rightarrow> string \<Rightarrow> (string \<times> nat) list" where
  "candidates os dir =
     concat (map (\<lambda>e. map (\<lambda>i. (path_join os dir (sample_name (snd e) i), fst e)) [1..<21])
                 (enumerate 0 the_class_labels))"

definition indexed_samples :: "'a os_path_scheme \<Rightarrow> string \<Rightarrow> (string \<times> nat) list" where
  "indexed_samples os dir = filter (\<lambda>e. path_exists os (fst e)) (candidates os dir)"

text \<open>
  The indexer's contract in the words of the specification, with every name written
  out: for each of the seven class names in the declared order, with its position as
  the class index, and for each \<open>i\<close> from 1 to 20 in ascending order, the file
  \<^verbatim>\<open>{class_name}_{i}.npy\<close> of the directory; the entries whose file exists are kept.
\<close>

definition index_numerals :: "string list" where
  "index_numerals =
     [''1'', ''2'', ''3'', ''4'', ''5''] @
     [''6'', ''7'', ''8'', ''9'', ''10''] @
     [''11'', ''12'', ''13'', ''14'', ''15''] @
     [''16'', ''17'', ''18'', ''19'', ''20'']"

definition named_candidates :: "'a os_path_scheme \<Rightarrow> string \<Rightarrow> (string \<times> nat) list" where
  "named_candidates os dir =
     concat (map (\<lambda>e. map (\<lambda>d. (path_join os dir (snd e @ ''_'' @ d @ ''.npy''), fst e))
                            index_numerals)
                 [(0, ''canola''), (1, ''soybean''), (2, ''sugarbeet''), (3, ''kochia''),
                  (4, ''common_ragweed''), (5, ''common_waterhemp''), (6, ''redroot_pigweed'')])"

definition named_samples :: "'a os_path_scheme \<Rightarrow> string \<Rightarrow> (string \<times> nat) list" where
  "named_samples os dir = filter (\<lambda>e. path_exists os (fst e)) (named_candidates os dir)"

section \<open>The empty-dataset guard and the split cell\<close>

text \<open>
  \<^verbatim>\<open>sklearn.model_selection.train_test_split\<close> is a library function; the notebook
  only calls it. It is a parameter of the model, taking the array to split, the
  \<^verbatim>\<open>test_size\<close>, the \<^verbatim>\<open>stratify\<close> labels and the \<^verbatim>\<open>random_state\<close>.
\<close>

type_synonym splitter = "nat list \<Rightarrow> rat \<Rightarrow> nat list \<Rightarrow> int \<Rightarrow> error + (nat list \<times> nat list)"

definition empty_message :: string where
  "empty_message =
     ''The dataset is empty. Please check the data_dir and ensure it contains the expected .npy files.''"

text \<open>
  The last code cell: the guard on \<^verbatim>\<open>len(dataset)\<close>, then the call
  \<^verbatim>\<open>train_test_split(np.arange(len(dataset)), test_size=0.2, stratify=dataset.labels, random_state=42)\<close>.
\<close>

definition split_cell :: "splitter \<Rightarrow> dataset \<Rightarrow> error + (nat list \<times> nat list)" where
  "split_cell train_test_split dataset =
     (if len dataset = 0 then Inl (ValueError empty_message)
      else train_test_split [0..<len dataset] (2 / 10) (labels dataset) 42)"

section \<open>32-bit floating point\<close>

text \<open>
  The tensors of \<^verbatim>\<open>__getitem__\<close> hold \<^verbatim>\<open>torch.float32\<close> values. A value is a finite
  number, a NaN or an infinity. Zero carries no sign: the only zero divisor that the
  code forms is a difference \<open>max - min\<close>, which is never negative.
\<close>

datatype fval = Fin real | NaN | PosInf | NegInf

text \<open>
  IEEE 754 binary32, round to nearest with ties to even. A non-zero \<open>x\<close> lies in the
  binade of exponent \<open>\<lfloor>log\<^sub>2 |x|\<rfloor>\<close>, not below the least normal exponent -126; the
  spacing of the representable numbers there is the exponent's power of two divided by
  \<open>2\<^sup>2\<^sup>3\<close>; \<open>x\<close> is rounded to the nearest multiple of the spacing. A result beyond the
  largest finite number overflows to an infinity.
\<close>

definition round_half_even :: "real \<Rightarrow> int" where
  "round_half_even t =
     (let f = \<lfloor>t\<rfloor>
      in if t - of_int f < 1 / 2 then f
         else if 1 / 2 < t - of_int f then f + 1
         else if even f then f else f + 1)"

definition expo32 :: "real \<Rightarrow> int" where
  "expo32 x = max \<lfloor>log 2 \<bar>x\<bar>\<rfloor> (- 126)"

definition ulp32 :: "real \<Rightarrow> real" where
  "ulp32 x = 2 powr real_of_int (expo32 x - 23)"

definition rnd32 :: "real \<Rightarrow> real" where
  "rnd32 x = sgn x * (of_int (round_half_even (\<bar>x\<bar> / ulp32 x)) * ulp32 x)"

definition fmax32 :: real where
  "fmax32 = 2 ^ 128 - 2 ^ 104"

definition round_to32 :: "real \<Rightarrow> fval" where
  "round_to32 x =
     (let y = rnd32 x
      in if fmax32 < y then PosInf else if y < - fmax32 then NegInf else Fin y)"

text \<open>
  \<^verbatim>\<open>torch.tensor(cube, dtype=torch.float32)\<close> on one entry of the loaded array: a finite
  entry is rounded, the others are kept.
\<close>

fun to_float32 :: "fval \<Rightarrow> fval" where
  "to_float32 (Fin x) = round_to32 x"
| "to_float32 v = v"

text \<open>Subtraction and division of two values, as the tensor operators apply them entrywise.\<close>

fun fsub :: "fval \<Rightarrow> fval \<Rightarrow> fval" where
  "fsub NaN b = NaN"
| "fsub a NaN = NaN"
| "fsub (Fin x) (Fin y) = round_to32 (x - y)"
| "fsub (Fin x) PosInf = NegInf"
| "fsub (Fin x) NegInf = PosInf"
| "fsub PosInf PosInf = NaN"
| "fsub NegInf NegInf = NaN"
| "fsub PosInf b = PosInf"
| "fsub NegInf b = NegInf"

fun fdiv :: "fval \<Rightarrow> fval \<Rightarrow> fval" where
  "fdiv NaN b = NaN"
| "fdiv a NaN = NaN"
| "fdiv (Fin x) (Fin y) =
     (if y = 0 then (if x = 0 then NaN else if 0 < x then PosInf else NegInf)
      else round_to32 (x / y))"
| "fdiv (Fin x) b = Fin 0"
| "fdiv PosInf (Fin y) = (if 0 \<le> y then PosInf else NegInf)"
| "fdiv NegInf (Fin y) = (if 0 \<le> y then NegInf else PosInf)"
| "fdiv a b = NaN"

text \<open>
  The smaller and the larger of two values, as the reductions \<^verbatim>\<open>min()\<close> and \<^verbatim>\<open>max()\<close>
  combine them: a NaN on either side gives NaN.
\<close>

fun fmin2 :: "fval \<Rightarrow> fval \<Rightarrow> fval" where
  "fmin2 NaN b = NaN"
| "fmin2 a NaN = NaN"
| "fmin2 NegInf b = NegInf"
| "fmin2 a NegInf = NegInf"
| "fmin2 PosInf b = b"
| "fmin2 a PosInf = a"
| "fmin2 (Fin x) (Fin y) = Fin (min x y)"

fun fmax2 :: "fval \<Rightarrow> fval \<Rightarrow> fval" where
  "fmax2 NaN b = NaN"
| "fmax2 a NaN = NaN"
| "fmax2 PosInf b = PosInf"
| "fmax2 a PosInf = PosInf"
| "fmax2 NegInf b = b"
| "fmax2 a NegInf = a"
| "fmax2 (Fin x) (Fin y) = Fin (max x y)"

section \<open>HyperspectralDataset: loading and transforming one sample\<close>

text \<open>
  A cube is a three-dimensional array, written as nested lists. The array that
  \<^verbatim>\<open>np.load\<close> returns holds numbers of its own precision, which may be NaN or infinite;
  from the cast of the first statement on, every entry is a 32-bit float.
\<close>

type_synonym cube = "fval list list list"

definition has_shape :: "nat \<times> nat \<times> nat \<Rightarrow> 'a list list list \<Rightarrow> bool" where
  "has_shape s t =
     (case s of (a, b, c) \<Rightarrow>
        length t = a \<and> list_all (\<lambda>m. length m = b \<and> list_all (\<lambda>r. length r = c) m) t)"

text \<open>Python list indexing \<^verbatim>\<open>xs[idx]\<close>: a negative index counts from the end.\<close>

definition py_index :: "'a list \<Rightarrow> int \<Rightarrow> error + 'a" where
  "py_index xs idx =
     (let n = int (length xs); j = (if idx < 0 then n + idx else idx)
      in if 0 \<le> j \<and> j < n then Inr (xs ! nat j) else Inl IndexError)"

text \<open>
  \<^verbatim>\<open>.permute(2, 0, 1)\<close>: from (H, W, C) to (C, H, W). The extents are read off the
  array; an array with an empty axis is refused below, by the resize.
\<close>

definition permute_201 :: "'a list list list \<Rightarrow> 'a list list list" where
  "permute_201 t =
     (case t of [] \<Rightarrow> []
      | row # _ \<Rightarrow>
          (case row of [] \<Rightarrow> []
           | px # _ \<Rightarrow> map (\<lambda>c. map (\<lambda>r. map (\<lambda>p. p ! c) r) t) [0..<length px]))"

text \<open>
  \<^verbatim>\<open>nn.functional.interpolate(cube.unsqueeze(0), size=(32, 32), mode='bilinear').squeeze(0)\<close>.
  The result has one matrix of the requested size per channel. The value that the
  library's kernel computes for one output position of one channel, in 32-bit
  arithmetic, is a parameter: a function of the requested size, the channel and the
  position.
\<close>

type_synonym kernel = "nat \<times> nat \<Rightarrow> fval list list \<Rightarrow> nat \<Rightarrow> nat \<Rightarrow> fval"

definition interpolate_bilinear :: "kernel \<Rightarrow> nat \<times> nat \<Rightarrow> cube \<Rightarrow> error + cube" where
  "interpolate_bilinear kern out_size t =
     (case t of [] \<Rightarrow> Inl RuntimeError
      | m # _ \<Rightarrow>
          (case m of [] \<Rightarrow> Inl RuntimeError
           | r # _ \<Rightarrow>
               if r = [] \<or> fst out_size = 0 \<or> snd out_size = 0 then Inl RuntimeError
               else Inr (map (\<lambda>ch. map (\<lambda>oh. map (\<lambda>ow. kern out_size ch oh ow)
                         [0..<snd out_size]) [0..<fst out_size]) t)))"

text \<open>
  \<^verbatim>\<open>cube.min()\<close> and \<^verbatim>\<open>cube.max()\<close> over the whole tensor; they raise on an empty one.
\<close>

definition tensor_min :: "cube \<Rightarrow> error + fval" where
  "tensor_min t = (case concat (concat t) of [] \<Rightarrow> Inl RuntimeError | x # xs \<Rightarrow> Inr (fold fmin2 xs x))"

definition tensor_max :: "cube \<Rightarrow> error + fval" where
  "tensor_max t = (case concat (concat t) of [] \<Rightarrow> Inl RuntimeError | x # xs \<Rightarrow> Inr (fold fmax2 xs x))"

text \<open>The statement \<^verbatim>\<open>cube = (cube - cube.min()) / (cube.max() - cube.min())\<close>.\<close>

definition normalize_cube :: "cube \<Rightarrow> error + cube" where
  "normalize_cube t =
     and_then (tensor_min t) (\<lambda>lo.
     and_then (tensor_max t) (\<lambda>hi.
     Inr (map (map (map (\<lambda>x. fdiv (fsub x lo) (fsub hi lo)))) t)))"

text \<open>The two statements under the comment \<^verbatim>\<open># Resize to (32, 32, 224)\<close>.\<close>

definition resize_cube :: "kernel \<Rightarrow> cube \<Rightarrow> error + cube" where
  "resize_cube kern raw =
     interpolate_bilinear kern (32, 32) (permute_201 (map (map (map to_float32)) raw))"

text \<open>
  \<^verbatim>\<open>HyperspectralDataset.__getitem__\<close>. \<^verbatim>\<open>np.load\<close> reads the disk and is a parameter;
  it returns a three-dimensional array or raises.
\<close>

definition getitem ::
  "kernel \<Rightarrow> (string \<Rightarrow> error + cube) \<Rightarrow> dataset \<Rightarrow> int \<Rightarrow> error + (cube \<times> nat)" where
  "getitem kern np_load self idx =
     and_then (py_index (file_paths self) idx) (\<lambda>path.
     and_then (np_load path) (\<lambda>raw.
     and_then (resize_cube kern raw) (\<lambda>cube.
     and_then (normalize_cube cube) (\<lambda>cube.
     and_then (py_index (labels self) idx) (\<lambda>label.
     Inr (cube, label))))))"

text \<open>An output value that is a finite number between 0 and 1.\<close>

definition in_unit :: "fval \<Rightarrow> bool" where
  "in_unit v = (case v of Fin x \<Rightarrow> 0 \<le> x \<and> x \<le> 1 | _ \<Rightarrow> False)"

subsection \<open>The documented bilinear kernel\<close>

text \<open>
  The library documents the value of an output position for \<^verbatim>\<open>mode='bilinear'\<close> with
  the default \<^verbatim>\<open>align_corners=False\<close>. Along one axis of \<open>n_in\<close> entries resized to
  \<open>n_out\<close>, the output position \<open>dst\<close> reads the source coordinate
  \<open>n_in / n_out * (dst + 1/2) - 1/2\<close>, clamped below at 0, and blends the two
  neighbouring entries linearly; the upper neighbour is clamped to the last entry.
  \<open>bilinear_kernel\<close> rounds that value once. It agrees with any order of evaluation in
  32-bit arithmetic where every intermediate value is representable; it serves as the
  kernel of the concrete instances.
\<close>

definition source_index :: "nat \<Rightarrow> nat \<Rightarrow> nat \<Rightarrow> real" where
  "source_index n_in n_out dst = max 0 (real n_in / real n_out * (real dst + 1 / 2) - 1 / 2)"

definition index0 :: "nat \<Rightarrow> nat \<Rightarrow> nat \<Rightarrow> nat" where
  "index0 n_in n_out dst = min (nat \<lfloor>source_index n_in n_out dst\<rfloor>) (n_in - 1)"

definition index1 :: "nat \<Rightarrow> nat \<Rightarrow> nat \<Rightarrow> nat" where
  "index1 n_in n_out dst =
     (if index0 n_in n_out dst < n_in - 1 then index0 n_in n_out dst + 1 else index0 n_in n_out dst)"

definition lambda1 :: "nat \<Rightarrow> nat \<Rightarrow> nat \<Rightarrow> real" where
  "lambda1 n_in n_out dst =
     min (max (source_index n_in n_out dst - real (index0 n_in n_out dst)) 0) 1"

definition lambda0 :: "nat \<Rightarrow> nat \<Rightarrow> nat \<Rightarrow> real" where
  "lambda0 n_in n_out dst = 1 - lambda1 n_in n_out dst"

text \<open>One output entry of one channel \<open>m\<close>, a matrix of \<open>h\<close> rows and \<open>w\<close> columns.\<close>

definition bilinear_at :: "nat \<times> nat \<Rightarrow> nat \<Rightarrow> nat \<Rightarrow> real list list \<Rightarrow> nat \<Rightarrow> nat \<Rightarrow> real" where
  "bilinear_at out_size h w m oh ow =
     (case out_size of (out_h, out_w) \<Rightarrow>
        lambda0 h out_h oh *
          (lambda0 w out_w ow * m ! index0 h out_h oh ! index0 w out_w ow +
           lambda1 w out_w ow * m ! index0 h out_h oh ! index1 w out_w ow) +
        lambda1 h out_h oh *
          (lambda0 w out_w ow * m ! index1 h out_h oh ! index0 w out_w ow +
           lambda1 w out_w ow * m ! index1 h out_h oh ! index1 w out_w ow))"

fun is_fin :: "fval \<Rightarrow> bool" where
  "is_fin (Fin x) = True"
| "is_fin v = False"

fun fin_value :: "fval \<Rightarrow> real" where
  "fin_value (Fin x) = x"
| "fin_value v = 0"

definition bilinear_kernel :: kernel where
  "bilinear_kernel out_size m oh ow =
     (if list_all (list_all is_fin) m
      then round_to32
             (bilinear_at out_size (length m) (length (hd m)) (map (map fin_value) m) oh ow)
      else NaN)"

section \<open>HyperspectralCNN: the shapes of the forward pass\<close>

text \<open>
  The network is modelled at the level of tensor shapes, which is what decides whether
  \<^verbatim>\<open>forward\<close> can run. The layers are those of \<^verbatim>\<open>torch.nn\<close> with the arguments given
  in \<^verbatim>\<open>__init__\<close>; a layer applied to a tensor of the wrong shape raises \<^verbatim>\<open>RuntimeError\<close>.
\<close>

text \<open>
  \<^verbatim>\<open>nn.Conv3d(in_channels, out_channels, kernel_size=(kd, kh, kw), stride=1)\<close>: no
  padding, so every spatial extent shrinks by the kernel extent minus one.
\<close>

record conv3d =
  in_channels :: nat
  out_channels :: nat
  kernel_size :: "nat \<times> nat \<times> nat"

fun conv3d_shape :: "conv3d \<Rightarrow> nat list \<Rightarrow> error + nat list" where
  "conv3d_shape c [b, ch, d, h, w] =
     (case kernel_size c of (kd, kh, kw) \<Rightarrow>
        if ch \<noteq> in_channels c \<or> d < kd \<or> h < kh \<or> w < kw then Inl RuntimeError
        else Inr [b, out_channels c, d - kd + 1, h - kh + 1, w - kw + 1])"
| "conv3d_shape c s = Inl RuntimeError"

text \<open>\<^verbatim>\<open>nn.MaxPool3d(kernel_size=(kd, kh, kw))\<close>: the stride is the kernel size.\<close>

fun maxpool3d_shape :: "nat \<times> nat \<times> nat \<Rightarrow> nat list \<Rightarrow> error + nat list" where
  "maxpool3d_shape (kd, kh, kw) [b, ch, d, h, w] =
     (if kd = 0 \<or> kh = 0 \<or> kw = 0 \<or> d < kd \<or> h < kh \<or> w < kw then Inl RuntimeError
      else Inr [b, ch, (d - kd) div kd + 1, (h - kh) div kh + 1, (w - kw) div kw + 1])"
| "maxpool3d_shape k s = Inl RuntimeError"

text \<open>\<^verbatim>\<open>torch.flatten(x, 1)\<close>: all axes after the first are merged.\<close>

fun flatten1_shape :: "nat list \<Rightarrow> error + nat list" where
  "flatten1_shape [] = Inl RuntimeError"
| "flatten1_shape (b # rest) = Inr [b, prod_list rest]"

text \<open>\<^verbatim>\<open>nn.Linear(in_features, out_features)\<close> acts on the last axis, which must have \<open>in_features\<close> entries.\<close>

fun linear_shape :: "nat \<times> nat \<Rightarrow> nat list \<Rightarrow> error + nat list" where
  "linear_shape (in_features, out_features) [] = Inl RuntimeError"
| "linear_shape (in_features, out_features) s =
     (if last s = in_features then Inr (butlast s @ [out_features]) else Inl RuntimeError)"

text \<open>\<^verbatim>\<open>x.unsqueeze(1)\<close> on a batch of shape (B, C, H, W).\<close>

definition unsqueeze1_shape :: "nat \<times> nat \<times> nat \<times> nat \<Rightarrow> nat list" where
  "unsqueeze1_shape s = (case s of (b, c, h, w) \<Rightarrow> [b, 1, c, h, w])"

record hyperspectral_cnn =
  conv1 :: conv3d
  pool1 :: "nat \<times> nat \<times> nat"
  conv2 :: conv3d
  fc1 :: "nat \<times> nat"
  fc2 :: "nat \<times> nat"

text \<open>\<^verbatim>\<open>HyperspectralCNN.__init__\<close>. The dropout layer has no effect on shapes.\<close>

definition HyperspectralCNN :: "nat \<Rightarrow> hyperspectral_cnn" where
  "HyperspectralCNN num_classes =
     \<lparr>conv1 = \<lparr>in_channels = 1, out_channels = 32, kernel_size = (3, 3, 10)\<rparr>,
      pool1 = (2, 2, 2),
      conv2 = \<lparr>in_channels = 32, out_channels = 64, kernel_size = (3, 3, 10)\<rparr>,
      fc1 = (64 * 15 * 15 * 53, 128),
      fc2 = (128, num_classes)\<rparr>"

text \<open>
  The first three statements of \<^verbatim>\<open>forward\<close>, up to \<^verbatim>\<open>torch.flatten(x, 1)\<close>: the shape
  \<^verbatim>\<open>(B, features)\<close> that reaches \<^verbatim>\<open>fc1\<close>. The activations keep shapes.
\<close>

definition flattened_shape :: "hyperspectral_cnn \<Rightarrow> nat \<times> nat \<times> nat \<times> nat \<Rightarrow> error + nat list" where
  "flattened_shape net s =
     and_then (conv3d_shape (conv1 net) (unsqueeze1_shape s)) (\<lambda>x.
     and_then (maxpool3d_shape (pool1 net) x) (\<lambda>x.
     and_then (conv3d_shape (conv2 net) x) flatten1_shape))"

text \<open>\<^verbatim>\<open>HyperspectralCNN.forward\<close>: the shape of the result, or the error raised.\<close>

definition forward_shape :: "hyperspectral_cnn \<Rightarrow> nat \<times> nat \<times> nat \<times> nat \<Rightarrow> error + nat list" where
  "forward_shape net s =
     and_then (flattened_shape net s) (\<lambda>x.
     and_then (linear_shape (fc1 net) x) (\<lambda>x.
     linear_shape (fc2 net) x))"

section \<open>train_model: the training loop\<close>

text \<open>
  The loop drives objects of the \<^verbatim>\<open>torch\<close> library: the model, the criterion, the
  optimizer and the data loaders. What the loop itself does with them is modelled as
  written; what the library computes is a parameter. The mutable objects form the
  \<open>machine\<close>: the parameters of the model, their accumulated gradients (\<open>None\<close> after
  \<^verbatim>\<open>zero_grad\<close>), the \<^verbatim>\<open>training\<close> flag set by \<^verbatim>\<open>model.train()\<close> and
  \<^verbatim>\<open>model.eval()\<close>, the state of the optimizer, and the state of the random number
  generator that dropout and shuffling draw from.
\<close>

datatype phase = Train | Val

record ('p, 'g, 's, 'r) machine =
  params :: 'p
  grads :: "'g option"
  training :: bool
  opt_state :: 's
  rng :: 'r

text \<open>
  The library calls made in the body of the loop:
  \<^item> \<open>forward\<close> is \<^verbatim>\<open>model(inputs)\<close>; it reads the training flag, the parameters and the
    generator, and may raise (a shape mismatch, for instance);
  \<^item> \<open>argmax1\<close> is the index part of \<^verbatim>\<open>torch.max(outputs, 1)\<close>;
  \<^item> \<open>criterion\<close> is \<^verbatim>\<open>criterion(outputs, labels)\<close>, read through \<^verbatim>\<open>loss.item()\<close>;
  \<^item> \<open>backward\<close> is \<^verbatim>\<open>loss.backward()\<close>: the new gradients, from the old ones and the
    forward computation that produced the loss;
  \<^item> \<open>step\<close> is \<^verbatim>\<open>optimizer.step()\<close>: the new optimizer state and parameters.
\<close>

record ('p, 'g, 's, 'r, 'x, 'o) torch =
  forward :: "bool \<Rightarrow> 'p \<Rightarrow> 'r \<Rightarrow> 'x list \<Rightarrow> error + ('o \<times> 'r)"
  argmax1 :: "'o \<Rightarrow> nat list"
  criterion :: "'o \<Rightarrow> nat list \<Rightarrow> real"
  backward :: "'g option \<Rightarrow> bool \<Rightarrow> 'p \<Rightarrow> 'r \<Rightarrow> 'x list \<Rightarrow> nat list \<Rightarrow> 'g option"
  step :: "'s \<Rightarrow> 'p \<Rightarrow> 'g option \<Rightarrow> 's \<times> 'p"

text \<open>
  \<^verbatim>\<open>dataloaders[phase]\<close>: iterating it yields the batches \<^verbatim>\<open>(inputs, labels)\<close> of one
  pass, in an order that may draw from the generator; \<^verbatim>\<open>len(dataloaders[phase].dataset)\<close>
  is a separate attribute.
\<close>

record ('r, 'x) dataloaders =
  batches :: "phase \<Rightarrow> 'r \<Rightarrow> ('x list \<times> nat list) list \<times> 'r"
  dataset_len :: "phase \<Rightarrow> nat"

text \<open>
  \<^verbatim>\<open>running_corrects\<close> starts as the Python integer 0 and becomes a tensor with the first
  \<^verbatim>\<open>+= torch.sum(...)\<close>; only a tensor has the method \<^verbatim>\<open>double\<close>.
\<close>

datatype corrects = PyInt int | Tensor int

fun add_tensor :: "corrects \<Rightarrow> int \<Rightarrow> corrects" where
  "add_tensor (PyInt a) n = Tensor (a + n)"
| "add_tensor (Tensor a) n = Tensor (a + n)"

fun double :: "corrects \<Rightarrow> error + real" where
  "double (PyInt a) = Inl AttributeError"
| "double (Tensor a) = Inr (real_of_int a)"

text \<open>The number held by \<^verbatim>\<open>running_corrects\<close>, integer or tensor.\<close>

fun corrects_val :: "corrects \<Rightarrow> int" where
  "corrects_val (PyInt a) = a"
| "corrects_val (Tensor a) = a"

text \<open>\<^verbatim>\<open>torch.sum(preds == labels.data)\<close>.\<close>

definition count_equal :: "nat list \<Rightarrow> nat list \<Rightarrow> int" where
  "count_equal preds ys = int (length (filter (\<lambda>e. fst e = snd e) (zip preds ys)))"

text \<open>Python's \<^verbatim>\<open>x / n\<close> for a float and an integer.\<close>

definition py_truediv :: "real \<Rightarrow> nat \<Rightarrow> error + real" where
  "py_truediv x n = (if n = 0 then Inl ZeroDivisionError else Inr (x / real n))"

text \<open>
  The body of \<^verbatim>\<open>for inputs, labels in dataloaders[phase]\<close>, on the machine and the two
  running sums.
\<close>

definition batch_step ::
  "('p, 'g, 's, 'r, 'x, 'o) torch \<Rightarrow> phase \<Rightarrow>
   ('p, 'g, 's, 'r) machine \<times> real \<times> corrects \<Rightarrow> 'x list \<times> nat list \<Rightarrow>
   error + (('p, 'g, 's, 'r) machine \<times> real \<times> corrects)" where
  "batch_step lib ph acc b =
     (case acc of (m, running_loss, running_corrects) \<Rightarrow>
      case b of (inputs, ys) \<Rightarrow>
        let m1 = m\<lparr>grads := None\<rparr>
        in and_then (forward lib (training m1) (params m1) (rng m1) inputs) (\<lambda>res.
             let outputs = fst res;
                 preds = argmax1 lib outputs;
                 loss = criterion lib outputs ys;
                 m2 = m1\<lparr>rng := snd res\<rparr>;
                 m3 = (if ph = Train
                       then let g = backward lib (grads m1) (training m1) (params m1) (rng m1) inputs ys;
                                sp = step lib (opt_state m1) (params m1) g
                            in m2\<lparr>grads := g, opt_state := fst sp, params := snd sp\<rparr>
                       else m2)
             in Inr (m3, running_loss + loss * real (length inputs),
                     add_tensor running_corrects (count_equal preds ys))))"

fun run_batches ::
  "('p, 'g, 's, 'r, 'x, 'o) torch \<Rightarrow> phase \<Rightarrow>
   ('p, 'g, 's, 'r) machine \<times> real \<times> corrects \<Rightarrow> ('x list \<times> nat list) list \<Rightarrow>
   error + (('p, 'g, 's, 'r) machine \<times> real \<times> corrects)" where
  "run_batches lib ph acc [] = Inr acc"
| "run_batches lib ph acc (b # bs) = and_then (batch_step lib ph acc b) (\<lambda>acc'. run_batches lib ph acc' bs)"

text \<open>
  The local variables of \<^verbatim>\<open>train_model\<close> that outlive a phase: the model, the two
  histories, and the metrics lines printed so far (phase, loss, accuracy).
\<close>

record ('p, 'g, 's, 'r) loop_state =
  model :: "('p, 'g, 's, 'r) machine"
  train_loss :: "real list"
  val_acc :: "real list"
  printed :: "(phase \<times> real \<times> real) list"

text \<open>The body of \<^verbatim>\<open>for phase in ['train', 'val']\<close>.\<close>

definition run_phase ::
  "('p, 'g, 's, 'r, 'x, 'o) torch \<Rightarrow> ('r, 'x) dataloaders \<Rightarrow> phase \<Rightarrow>
   ('p, 'g, 's, 'r) loop_state \<Rightarrow> error + ('p, 'g, 's, 'r) loop_state" where
  "run_phase lib dl ph st =
     (let m0 = (model st)\<lparr>training := (ph = Train)\<rparr>;
          it = batches dl ph (rng m0);
          m1 = m0\<lparr>rng := snd it\<rparr>
      in and_then (run_batches lib ph (m1, 0, PyInt 0) (fst it)) (\<lambda>acc.
         case acc of (m2, running_loss, running_corrects) \<Rightarrow>
           and_then (py_truediv running_loss (dataset_len dl ph)) (\<lambda>epoch_loss.
           and_then (double running_corrects) (\<lambda>d.
           and_then (py_truediv d (dataset_len dl ph)) (\<lambda>epoch_acc.
             let st1 = (if ph = Train
                        then st\<lparr>model := m2, train_loss := train_loss st @ [epoch_loss]\<rparr>
                        else st\<lparr>model := m2, val_acc := val_acc st @ [epoch_acc]\<rparr>)
             in Inr (st1\<lparr>printed := printed st1 @ [(ph, epoch_loss, epoch_acc)]\<rparr>))))))"

text \<open>The body of \<^verbatim>\<open>for epoch in range(num_epochs)\<close>, and the loop.\<close>

definition run_epoch ::
  "('p, 'g, 's, 'r, 'x, 'o) torch \<Rightarrow> ('r, 'x) dataloaders \<Rightarrow>
   ('p, 'g, 's, 'r) loop_state \<Rightarrow> error + ('p, 'g, 's, 'r) loop_state" where
  "run_epoch lib dl st = and_then (run_phase lib dl Train st) (run_phase lib dl Val)"

fun run_epochs ::
  "('p, 'g, 's, 'r, 'x, 'o) torch \<Rightarrow> ('r, 'x) dataloaders \<Rightarrow> nat \<Rightarrow>
   ('p, 'g, 's, 'r) loop_state \<Rightarrow> error + ('p, 'g, 's, 'r) loop_state" where
  "run_epochs lib dl 0 st = Inr st"
| "run_epochs lib dl (Suc n) st = and_then (run_epoch lib dl st) (run_epochs lib dl n)"

text \<open>\<^verbatim>\<open>train_model\<close>; the result is the tuple \<^verbatim>\<open>(model, train_loss, val_acc)\<close>.\<close>

definition train_model ::
  "('p, 'g, 's, 'r, 'x, 'o) torch \<Rightarrow> ('r, 'x) dataloaders \<Rightarrow> ('p, 'g, 's, 'r) machine \<Rightarrow> nat \<Rightarrow>
   error + (('p, 'g, 's, 'r) machine \<times> real list \<times> real list)" where
  "train_model lib dl m num_epochs =
     and_then (run_epochs lib dl num_epochs \<lparr>model = m, train_loss = [], val_acc = [], printed = []\<rparr>)
       (\<lambda>st. Inr (model st, train_loss st, val_acc st))"

subsection \<open>The metrics of a phase, as sums over its batches\<close>

text \<open>
  The machine as it stands before a batch determines that batch's loss and its number
  of correct predictions, and the machine after it.
\<close>

definition batch_loss ::
  "('p, 'g, 's, 'r, 'x, 'o) torch \<Rightarrow> ('p, 'g, 's, 'r) machine \<Rightarrow> 'x list \<times> nat list \<Rightarrow> real" where
  "batch_loss lib m b =
     (case forward lib (training m) (params m) (rng m) (fst b) of
        Inl e \<Rightarrow> 0
      | Inr res \<Rightarrow> criterion lib (fst res) (snd b))"

definition batch_corrects ::
  "('p, 'g, 's, 'r, 'x, 'o) torch \<Rightarrow> ('p, 'g, 's, 'r) machine \<Rightarrow> 'x list \<times> nat list \<Rightarrow> int" where
  "batch_corrects lib m b =
     (case forward lib (training m) (params m) (rng m) (fst b) of
        Inl e \<Rightarrow> 0
      | Inr res \<Rightarrow> count_equal (argmax1 lib (fst res)) (snd b))"

definition machine_after ::
  "('p, 'g, 's, 'r, 'x, 'o) torch \<Rightarrow> phase \<Rightarrow> ('p, 'g, 's, 'r) machine \<Rightarrow> 'x list \<times> nat list \<Rightarrow>
   ('p, 'g, 's, 'r) machine" where
  "machine_after lib ph m b =
     (case batch_step lib ph (m, 0, PyInt 0) b of Inl e \<Rightarrow> m | Inr acc \<Rightarrow> fst acc)"

text \<open>Each batch's loss scaled by its batch size, summed over the batches of a pass.\<close>

fun scaled_loss_sum ::
  "('p, 'g, 's, 'r, 'x, 'o) torch \<Rightarrow> phase \<Rightarrow> ('p, 'g, 's, 'r) machine \<Rightarrow>
   ('x list \<times> nat list) list \<Rightarrow> real" where
  "scaled_loss_sum lib ph m [] = 0"
| "scaled_loss_sum lib ph m (b # bs) =
     batch_loss lib m b * real (length (fst b)) + scaled_loss_sum lib ph (machine_after lib ph m b) bs"

fun corrects_sum ::
  "('p, 'g, 's, 'r, 'x, 'o) torch \<Rightarrow> phase \<Rightarrow> ('p, 'g, 's, 'r) machine \<Rightarrow>
   ('x list \<times> nat list) list \<Rightarrow> int" where
  "corrects_sum lib ph m [] = 0"
| "corrects_sum lib ph m (b # bs) =
     batch_corrects lib m b + corrects_sum lib ph (machine_after lib ph m b) bs"

text \<open>The machine on which the first batch of a phase runs.\<close>

definition phase_start ::
  "('r, 'x) dataloaders \<Rightarrow> phase \<Rightarrow> ('p, 'g, 's, 'r) machine \<Rightarrow> ('p, 'g, 's, 'r) machine" where
  "phase_start dl ph m =
     m\<lparr>training := (ph = Train), rng := snd (batches dl ph (rng (m\<lparr>training := (ph = Train)\<rparr>)))\<rparr>"

definition phase_batches ::
  "('r, 'x) dataloaders \<Rightarrow> phase \<Rightarrow> ('p, 'g, 's, 'r) machine \<Rightarrow> ('x list \<times> nat list) list" where
  "phase_batches dl ph m = fst (batches dl ph (rng m))"

text \<open>Running loss over subset size, and running correct count over subset size.\<close>

definition epoch_loss_of ::
  "('p, 'g, 's, 'r, 'x, 'o) torch \<Rightarrow> ('r, 'x) dataloaders \<Rightarrow> phase \<Rightarrow> ('p, 'g, 's, 'r) machine \<Rightarrow> real" where
  "epoch_loss_of lib dl ph m =
     scaled_loss_sum lib ph (phase_start dl ph m) (phase_batches dl ph m) / real (dataset_len dl ph)"

definition epoch_acc_of ::
  "('p, 'g, 's, 'r, 'x, 'o) torch \<Rightarrow> ('r, 'x) dataloaders \<Rightarrow> phase \<Rightarrow> ('p, 'g, 's, 'r) machine \<Rightarrow> real" where
  "epoch_acc_of lib dl ph m =
     real_of_int (corrects_sum lib ph (phase_start dl ph m) (phase_batches dl ph m)) / real (dataset_len dl ph)"

text \<open>The machine after all batches of a pass, after a phase, and at the start of an epoch.\<close>

definition machine_after_batches ::
  "('p, 'g, 's, 'r, 'x, 'o) torch \<Rightarrow> phase \<Rightarrow> ('p, 'g, 's, 'r) machine \<Rightarrow>
   ('x list \<times> nat list) list \<Rightarrow> ('p, 'g, 's, 'r) machine" where
  "machine_after_batches lib ph m bs = fold (\<lambda>b m. machine_after lib ph m b) bs m"

definition machine_after_phase ::
  "('p, 'g, 's, 'r, 'x, 'o) torch \<Rightarrow> ('r, 'x) dataloaders \<Rightarrow> phase \<Rightarrow> ('p, 'g, 's, 'r) machine \<Rightarrow>
   ('p, 'g, 's, 'r) machine" where
  "machine_after_phase lib dl ph m =
     machine_after_batches lib ph (phase_start dl ph m) (phase_batches dl ph m)"

fun machine_at_epoch ::
  "('p, 'g, 's, 'r, 'x, 'o) torch \<Rightarrow> ('r, 'x) dataloaders \<Rightarrow> ('p, 'g, 's, 'r) machine \<Rightarrow> nat \<Rightarrow>
   ('p, 'g, 's, 'r) machine" where
  "machine_at_epoch lib dl m 0 = m"
| "machine_at_epoch lib dl m (Suc e) =
     machine_after_phase lib dl Val (machine_after_phase lib dl Train (machine_at_epoch lib dl m e))"

text \<open>A small library, loaders and machine, for concrete instances.\<close>

definition toy_torch :: "(int, int, unit, nat, nat, nat list) torch" where
  "toy_torch =
     \<lparr>forward = (\<lambda>tr p r xs. Inr (xs, Suc r)),
      argmax1 = (\<lambda>outputs. outputs),
      criterion = (\<lambda>outputs ys. 1 / 2),
      backward = (\<lambda>g tr p r xs ys. Some 1),
      step = (\<lambda>s p g. (s, (case g of None \<Rightarrow> p | Some d \<Rightarrow> p - d)))\<rparr>"

definition toy_loaders :: "(nat, nat) dataloaders" where
  "toy_loaders = \<lparr>batches = (\<lambda>ph r. ([([0, 1], [0, 0])], r)), dataset_len = (\<lambda>ph. 2)\<rparr>"

definition toy_machine :: "(int, int, unit, nat) machine" where
  "toy_machine = \<lparr>params = 0, grads = None, training = False, opt_state = (), rng = 0\<rparr>"

definition toy_state :: "(int, int, unit, nat) loop_state" where
  "toy_state = \<lparr>model = toy_machine, train_loss = [], val_acc = [], printed = []\<rparr>"

subsection \<open>Concrete instances\<close>

text \<open>Two concrete disks, for instances of the theorems below.\<close>

definition example_disk :: os_path where
  "example_disk = \<lparr>path_join = posix_join,
     path_exists = (\<lambda>p. p \<in> set [''d/canola_3.npy'', ''d/kochia_1.npy'',
        ''d/kochia_20.npy'', ''d/kochia_21.npy''])\<rparr>"

definition empty_disk :: os_path where
  "empty_disk = \<lparr>path_join = posix_join, path_exists = (\<lambda>p. False)\<rparr>"

text \<open>A splitter that always fails, standing for the library at a concrete instance.\<close>

definition failing_splitter :: splitter where
  "failing_splitter idx test_size stratify random_state = Inl LibraryError"

text \<open>
  A raw array of shape (64, 1, 1): one band, one column, and 64 rows that alternate
  between 0 and 1.
\<close>

definition alt_column :: cube where
  "alt_column = map (\<lambda>h. [[Fin (if even h then 0 else 1)]]) [0..<64]"

text \<open>
  A raw array of shape (1, 1, 2) whose two bands hold \<open>-2\<^sup>1\<^sup>2\<^sup>7\<close> and \<open>2\<^sup>1\<^sup>2\<^sup>7\<close>, both
  32-bit floats.
\<close>

definition pow127 :: real where
  "pow127 = 2 ^ 127"

definition wide_pixel :: cube where
  "wide_pixel = [[[Fin (- pow127), Fin pow127]]]"

section \<open>Properties of the sample indexer\<close>

lemma fold_probe_sample:
  "fold (probe_sample os dir k c) is acc =
     (fst acc @ map fst (filter (\<lambda>e. path_exists os (fst e))
                          (map (\<lambda>i. (path_join os dir (sample_name c i), k)) is)),
      snd acc @ map snd (filter (\<lambda>e. path_exists os (fst e))
                          (map (\<lambda>i. (path_join os dir (sample_name c i), k)) is)))"
  by (induction "is" arbitrary: acc) (simp_all add: probe_sample_def Let_def)

lemma probe_class_eq:
  "probe_class os dir e acc =
     (fst acc @ map fst (filter (\<lambda>e. path_exists os (fst e))
                          (map (\<lambda>i. (path_join os dir (sample_name (snd e) i), fst e)) [1..<21])),
      snd acc @ map snd (filter (\<lambda>e. path_exists os (fst e))
                          (map (\<lambda>i. (path_join os dir (sample_name (snd e) i), fst e)) [1..<21])))"
  unfolding probe_class_def by (rule fold_probe_sample)

lemma fold_probe_class:
  "fold (probe_class os dir) es acc =
     (fst acc @ map fst (filter (\<lambda>e. path_exists os (fst e))
        (concat (map (\<lambda>e. map (\<lambda>i. (path_join os dir (sample_name (snd e) i), fst e)) [1..<21]) es))),
      snd acc @ map snd (filter (\<lambda>e. path_exists os (fst e))
        (concat (map (\<lambda>e. map (\<lambda>i. (path_join os dir (sample_name (snd e) i), fst e)) [1..<21]) es))))"
proof (induction es arbitrary: acc)
  case Nil
  show ?case by simp
next
  case (Cons e es)
  have "fold (probe_class os dir) (e # es) acc = fold (probe_class os dir) es (probe_class os dir e acc)"
    by simp
  also have "\<dots> = fold (probe_class os dir) es
     (fst acc @ map fst (filter (\<lambda>e. path_exists os (fst e))
                          (map (\<lambda>i. (path_join os dir (sample_name (snd e) i), fst e)) [1..<21])),
      snd acc @ map snd (filter (\<lambda>e. path_exists os (fst e))
                          (map (\<lambda>i. (path_join os dir (sample_name (snd e) i), fst e)) [1..<21])))"
    by (simp only: probe_class_eq)
  finally show ?case
    by (simp only: Cons.IH fst_conv snd_conv list.map concat.simps filter_append map_append append_assoc)
qed

lemma file_paths_indexed:
  "file_paths (HyperspectralDataset os dir) = map fst (indexed_samples os dir)"
  by (simp add: HyperspectralDataset_def Let_def fold_probe_class indexed_samples_def candidates_def)

lemma labels_indexed:
  "labels (HyperspectralDataset os dir) = map snd (indexed_samples os dir)"
  by (simp add: HyperspectralDataset_def Let_def fold_probe_class indexed_samples_def candidates_def)

lemma length_blocks:
  "length (concat (map (\<lambda>e. map (h e) is) es)) = length es * length is"
  by (induction es) simp_all

lemma length_candidates: "length (candidates os dir) = 140"
  by (simp add: candidates_def length_blocks the_class_labels_def)

lemma snd_candidates_bound: "e \<in> set (candidates os dir) \<Longrightarrow> snd e < 7"
  by (auto simp: candidates_def in_set_enumerate_eq the_class_labels_def)

lemma sorted_snd_blocks:
  "sorted (map snd (concat (map (\<lambda>e. map (\<lambda>i. (g e i, fst e)) is) (enumerate n xs))))"
proof (induction xs arbitrary: n)
  case Nil
  show ?case by simp
next
  case (Cons x xs)
  let ?rest = "map snd (concat (map (\<lambda>e. map (\<lambda>i. (g e i, fst e)) is) (enumerate (Suc n) xs)))"
  have lower: "\<And>b. b \<in> set ?rest \<Longrightarrow> n \<le> b"
    by (auto simp: in_set_enumerate_eq)
  have block: "sorted (replicate (length is) n)"
    by (simp add: sorted_replicate)
  have eq: "map snd (concat (map (\<lambda>e. map (\<lambda>i. (g e i, fst e)) is) (enumerate n (x # xs))))
              = replicate (length is) n @ ?rest"
    by (simp add: comp_def map_replicate_const)
  show ?case
    unfolding eq sorted_append
    using block Cons.IH [of "Suc n"] lower by auto
qed

lemma sorted_snd_candidates: "sorted (map snd (candidates os dir))"
  unfolding candidates_def by (rule sorted_snd_blocks)

lemma sorted_map_filter: "sorted (map f xs) \<Longrightarrow> sorted (map f (filter P xs))"
  by (induction xs) auto

lemma candidates_member:
  "e \<in> set (candidates os dir) \<Longrightarrow>
     \<exists>c i. c \<in> set the_class_labels \<and> 1 \<le> i \<and> i \<le> 20 \<and>
           fst e = path_join os dir (sample_name c i)"
proof -
  assume "e \<in> set (candidates os dir)"
  then obtain k c i where kc: "(k, c) \<in> set (enumerate 0 the_class_labels)"
    and i: "i \<in> set [1..<21]" and e: "e = (path_join os dir (sample_name c i), k)"
    by (auto simp: candidates_def)
  from kc have "c \<in> set the_class_labels"
    by (auto simp: in_set_enumerate_eq)
  moreover from i have "1 \<le> i \<and> i \<le> 20"
    by auto
  ultimately show ?thesis
    using e by auto
qed

lemma example_disk_dataset:
  "HyperspectralDataset example_disk ''d'' =
     \<lparr>data_dir = ''d'', class_labels = the_class_labels,
      file_paths = [''d/canola_3.npy'', ''d/kochia_1.npy'', ''d/kochia_20.npy''],
      labels = [0, 3, 3]\<rparr>"
  by code_simp

lemma str_nat_numerals: "map str_nat [1..<21] = index_numerals"
  by code_simp

lemma enumerate_class_labels:
  "enumerate 0 the_class_labels =
     [(0, ''canola''), (1, ''soybean''), (2, ''sugarbeet''), (3, ''kochia''),
      (4, ''common_ragweed''), (5, ''common_waterhemp''), (6, ''redroot_pigweed'')]"
  by (simp add: the_class_labels_def)

lemma candidates_named: "candidates os dir = named_candidates os dir"
proof -
  have inner: "map (\<lambda>i. (path_join os dir (sample_name c i), k)) [1..<21] =
        map (\<lambda>d. (path_join os dir (c @ ''_'' @ d @ ''.npy''), k)) index_numerals" for c k
  proof -
    have "map (\<lambda>i. (path_join os dir (sample_name c i), k)) [1..<21] =
          map (\<lambda>d. (path_join os dir (c @ ''_'' @ d @ ''.npy''), k)) (map str_nat [1..<21])"
      by (simp only: map_map comp_def sample_name_def)
    then show ?thesis
      by (simp only: str_nat_numerals)
  qed
  show ?thesis
    by (simp only: candidates_def named_candidates_def enumerate_class_labels inner)
qed

lemma named_samples_example:
  "named_samples example_disk ''d'' =
     [(''d/canola_3.npy'', 0), (''d/kochia_1.npy'', 3), (''d/kochia_20.npy'', 3)]"
  by code_simp

text \<open>
  Claim C1. For every directory, the constructor leaves in \<open>file_paths\<close> and \<open>labels\<close>
  exactly the (file path, class index) pairs of the files \<^verbatim>\<open>{class_name}_{i}.npy\<close>,
  \<open>i\<close> in 1..20, that exist, listed class by class in the declared order of the seven
  class names and by ascending \<open>i\<close> within a class; nothing else is included.
\<close>

theorem indexer_contract:
  "file_paths (HyperspectralDataset os dir) = map fst (named_samples os dir) \<and>
   labels (HyperspectralDataset os dir) = map snd (named_samples os dir)"
  by (simp only: file_paths_indexed labels_indexed indexed_samples_def named_samples_def
      candidates_named simp_thms)

text \<open>
  An instance: of the files \<^verbatim>\<open>canola_3.npy\<close>, \<^verbatim>\<open>kochia_1.npy\<close>, \<^verbatim>\<open>kochia_20.npy\<close> and
  \<^verbatim>\<open>kochia_21.npy\<close> in the directory \<^verbatim>\<open>d\<close>, the first three are indexed, in this order,
  with the class indices 0, 3 and 3.
\<close>

theorem indexer_contract_witness:
  "file_paths (HyperspectralDataset example_disk ''d'') =
     [''d/canola_3.npy'', ''d/kochia_1.npy'', ''d/kochia_20.npy''] \<and>
   labels (HyperspectralDataset example_disk ''d'') = [0, 3, 3]"
  using indexer_contract [of example_disk "''d''"]
  by (simp add: named_samples_example)

text \<open>
  Claim C10. After construction on any directory the path list and the label list have
  the same length, which is the reported dataset length; every label lies in 0..6; the
  labels are in nondecreasing order; and the dataset has at most 140 entries.
\<close>

theorem dataset_invariant:
  "length (file_paths (HyperspectralDataset os dir)) = length (labels (HyperspectralDataset os dir)) \<and>
   len (HyperspectralDataset os dir) = length (labels (HyperspectralDataset os dir)) \<and>
   (\<forall>l \<in> set (labels (HyperspectralDataset os dir)). l \<le> 6) \<and>
   sorted (labels (HyperspectralDataset os dir)) \<and>
   len (HyperspectralDataset os dir) \<le> 140"
proof -
  let ?D = "HyperspectralDataset os dir"
  have fp: "file_paths ?D = map fst (indexed_samples os dir)"
    by (rule file_paths_indexed)
  have lb: "labels ?D = map snd (indexed_samples os dir)"
    by (rule labels_indexed)
  have same: "length (file_paths ?D) = length (labels ?D)"
    by (simp add: fp lb)
  have bound: "\<forall>l \<in> set (labels ?D). l \<le> 6"
  proof
    fix l assume "l \<in> set (labels ?D)"
    then obtain e where "e \<in> set (candidates os dir)" and "l = snd e"
      by (auto simp: lb indexed_samples_def)
    then show "l \<le> 6"
      using snd_candidates_bound [of e os dir] by simp
  qed
  have sorted: "sorted (labels ?D)"
    unfolding lb indexed_samples_def
    by (rule sorted_map_filter) (rule sorted_snd_candidates)
  have "length (indexed_samples os dir) \<le> length (candidates os dir)"
    unfolding indexed_samples_def by (rule length_filter_le)
  then have le: "len ?D \<le> 140"
    by (simp add: len_def fp length_candidates)
  show ?thesis
    using same bound sorted le by (simp add: len_def)
qed

theorem dataset_invariant_witness:
  "labels (HyperspectralDataset example_disk ''d'') = [0, 3, 3] \<and>
   length (file_paths (HyperspectralDataset example_disk ''d'')) = 3 \<and>
   list_all (\<lambda>l. l \<le> 6) (labels (HyperspectralDataset example_disk ''d'')) \<and>
   sorted (labels (HyperspectralDataset example_disk ''d'')) \<and>
   len (HyperspectralDataset example_disk ''d'') \<le> 140"
  using dataset_invariant [of example_disk "''d''"]
  by (simp add: example_disk_dataset list_all_iff)

lemma split_cell_call:
  "len ds \<noteq> 0 \<Longrightarrow>
     split_cell train_test_split ds = train_test_split [0..<len ds] (2 / 10) (labels ds) 42"
  by (simp add: split_cell_def)

text \<open>
  Claim C5, as stated, fails: on a directory with no matching file the constructor
  returns a dataset whose sequence is empty, and raises nothing.
\<close>

theorem indexer_empty_counterexample:
  "len (HyperspectralDataset empty_disk ''data'') = 0 \<and>
   file_paths (HyperspectralDataset empty_disk ''data'') = [] \<and>
   labels (HyperspectralDataset empty_disk ''data'') = []"
  by (simp add: len_def file_paths_indexed labels_indexed indexed_samples_def empty_disk_def)

text \<open>
  Claim C5, amended. When no file \<^verbatim>\<open>{class_name}_{i}.npy\<close>, \<open>i\<close> in 1..20, exists in the
  directory, the constructor returns an empty dataset, and the guard of the cell that
  follows raises \<^verbatim>\<open>ValueError\<close> with the message naming the data directory as the likely
  cause, before \<^verbatim>\<open>train_test_split\<close> is called.
\<close>

theorem empty_dataset_guard:
  assumes "\<forall>c \<in> set the_class_labels. \<forall>i \<in> {1..20}.
             \<not> path_exists os (path_join os dir (sample_name c i))"
  shows "file_paths (HyperspectralDataset os dir) = [] \<and>
         labels (HyperspectralDataset os dir) = [] \<and>
         split_cell train_test_split (HyperspectralDataset os dir) = Inl (ValueError empty_message)"
proof -
  have "\<forall>e \<in> set (candidates os dir). \<not> path_exists os (fst e)"
  proof
    fix e assume "e \<in> set (candidates os dir)"
    then obtain c i where "c \<in> set the_class_labels" "1 \<le> i" "i \<le> 20"
      and "fst e = path_join os dir (sample_name c i)"
      using candidates_member by blast
    then show "\<not> path_exists os (fst e)"
      using assms by simp
  qed
  then have "indexed_samples os dir = []"
    by (simp add: indexed_samples_def filter_empty_conv)
  then show ?thesis
    by (simp add: split_cell_def len_def file_paths_indexed labels_indexed)
qed

theorem empty_dataset_guard_witness:
  "file_paths (HyperspectralDataset empty_disk ''data'') = [] \<and>
   split_cell failing_splitter (HyperspectralDataset empty_disk ''data'') = Inl (ValueError empty_message)"
proof -
  have h: "\<forall>c \<in> set the_class_labels. \<forall>i \<in> {1..20}.
      \<not> path_exists empty_disk (path_join empty_disk ''data'' (sample_name c i))"
    by (simp add: empty_disk_def)
  show ?thesis
    using empty_dataset_guard [OF h, of failing_splitter] by simp
qed

section \<open>Properties of the classifier's shapes\<close>

lemma flattened_shape_bands:
  "flattened_shape (HyperspectralCNN n) (b, bands, 32, 32) =
     (if bands < 8 then Inl RuntimeError
      else Inr [b, 64 * ((bands - 4) div 2 - 1) * 13 * 2])"
proof (cases "bands < 8")
  case True
  then have "bands < 3 \<or> (3 \<le> bands \<and> (bands - 4) div 2 + 1 < 3)" by arith
  then show ?thesis using True
    by (auto simp add: flattened_shape_def HyperspectralCNN_def unsqueeze1_shape_def and_then_def)
next
  case False
  then have "3 \<le> bands" "2 \<le> bands - 2" "3 \<le> (bands - 4) div 2 + 1"
    "(bands - 4) div 2 + 1 - 2 = (bands - 4) div 2 - 1" by arith+
  then show ?thesis using False
    by (simp add: flattened_shape_def HyperspectralCNN_def unsqueeze1_shape_def and_then_def)
qed

lemma flattened_shape_224:
  "flattened_shape (HyperspectralCNN 7) (1, 224, 32, 32) = Inr [1, 181376]"
  by (simp add: flattened_shape_bands)

lemma odd_quotient: "26 * (k::nat) \<noteq> 11925"
  by presburger

lemma ne: "64 * ((bands - 4) div 2 - 1) * 13 * 2 \<noteq> (763200::nat)"
  using odd_quotient [of "(bands - 4) div 2 - 1"] by simp

text \<open>
  Claim C6 does not hold of the code. For a batch of cubes of shape (bands, 32, 32) the
  flattened feature count is never \<open>64 * 15 * 15 * 53\<close>, the input size given to \<open>fc1\<close>:
  the kernel (3, 3, 10) is applied to the axes (band, height, width), so the last two
  extents after the second convolution are 13 and 2. The forward pass therefore raises
  on every such input.
\<close>

theorem fc1_input_size_mismatch:
  "flattened_shape (HyperspectralCNN n) (b, bands, 32, 32) \<noteq> Inr [b, fst (fc1 (HyperspectralCNN n))] \<and>
   forward_shape (HyperspectralCNN n) (b, bands, 32, 32) = Inl RuntimeError \<and>
   flattened_shape (HyperspectralCNN 7) (1, 224, 32, 32) = Inr [1, 181376] \<and>
   fst (fc1 (HyperspectralCNN 7)) = 763200"
proof -
  have c: "fc1 (HyperspectralCNN n) = (763200, 128)" for n
    by (simp add: HyperspectralCNN_def)
  have a: "flattened_shape (HyperspectralCNN n) (b, bands, 32, 32) \<noteq> Inr [b, fst (fc1 (HyperspectralCNN n))]"
    unfolding c flattened_shape_bands using ne [of bands] by simp
  have f: "forward_shape (HyperspectralCNN n) (b, bands, 32, 32) = Inl RuntimeError"
    unfolding forward_shape_def flattened_shape_bands c using ne [of bands]
    by (simp add: and_then_def)
  show ?thesis
    using a f c flattened_shape_224 by simp
qed

section \<open>Properties of 32-bit rounding\<close>

lemma round_half_even_mono: "s \<le> t \<Longrightarrow> round_half_even s \<le> round_half_even t"
proof -
  assume st: "s \<le> t"
  have fl: "\<lfloor>s\<rfloor> \<le> \<lfloor>t\<rfloor>" using st by (rule floor_mono)
  show ?thesis
  proof (cases "\<lfloor>s\<rfloor> = \<lfloor>t\<rfloor>")
    case True
    then show ?thesis
      using st by (auto simp: round_half_even_def Let_def)
  next
    case False
    with fl have "\<lfloor>s\<rfloor> + 1 \<le> \<lfloor>t\<rfloor>" by simp
    moreover have "round_half_even s \<le> \<lfloor>s\<rfloor> + 1"
      by (simp add: round_half_even_def Let_def)
    moreover have "\<lfloor>t\<rfloor> \<le> round_half_even t"
      by (simp add: round_half_even_def Let_def)
    ultimately show ?thesis by linarith
  qed
qed

lemma round_half_even_of_int: "round_half_even (of_int k) = k"
  by (simp add: round_half_even_def)

lemma round_half_even_nonneg: "0 \<le> t \<Longrightarrow> 0 \<le> round_half_even t"
  using round_half_even_mono [of 0 t] round_half_even_of_int [of 0] by simp

lemma ulp32_pos: "0 < ulp32 x"
  by (simp add: ulp32_def)

lemma ulp32_abs: "ulp32 \<bar>x\<bar> = ulp32 x"
  by (simp add: ulp32_def expo32_def)

lemma expo32_mono: "0 < x \<Longrightarrow> x \<le> y \<Longrightarrow> expo32 x \<le> expo32 y"
  by (simp add: expo32_def floor_mono max.coboundedI1)

lemma below_next_binade: "0 < x \<Longrightarrow> x < 2 powr real_of_int (expo32 x + 1)"
proof -
  assume x: "0 < x"
  have "log 2 x < real_of_int (\<lfloor>log 2 x\<rfloor> + 1)" by linarith
  also have "\<dots> \<le> real_of_int (expo32 x + 1)"
    using x by (simp add: expo32_def)
  finally have "log 2 x < real_of_int (expo32 x + 1)" .
  then show ?thesis
    using x by (simp add: less_powr_iff)
qed

lemma above_binade: "0 < x \<Longrightarrow> - 126 < expo32 x \<Longrightarrow> 2 powr real_of_int (expo32 x) \<le> x"
proof -
  assume x: "0 < x" and e: "- 126 < expo32 x"
  then have "expo32 x = \<lfloor>log 2 x\<rfloor>"
    by (simp add: expo32_def max_def split: if_splits)
  then have "real_of_int (expo32 x) \<le> log 2 x" by simp
  then show ?thesis
    using x by (simp add: powr_le_iff)
qed


lemma powr_split: "2 powr real_of_int (a + b) = 2 powr real_of_int a * 2 powr real_of_int b"
  by (simp add: powr_add)

lemma magnitude_upper:
  assumes "0 < x"
  shows "of_int (round_half_even (x / ulp32 x)) * ulp32 x \<le> 2 powr real_of_int (expo32 x + 1)"
proof -
  let ?u = "ulp32 x"
  have split: "2 powr real_of_int (expo32 x + 1) = of_int (2 ^ 24) * ?u"
  proof -
    have "expo32 x + 1 = 24 + (expo32 x - 23)" by simp
    then have "2 powr real_of_int (expo32 x + 1) = 2 powr real_of_int (24 + (expo32 x - 23))"
      by (rule arg_cong)
    also have "\<dots> = 2 powr real_of_int 24 * ?u"
      unfolding ulp32_def by (rule powr_split)
    finally show ?thesis by simp
  qed
  have "x / ?u \<le> of_int (2 ^ 24)"
    using below_next_binade [OF assms] ulp32_pos [of x] unfolding split
    by (simp add: pos_divide_le_eq)
  then have "round_half_even (x / ?u) \<le> 2 ^ 24"
    using round_half_even_mono [of "x / ?u" "of_int (2 ^ 24)"]
    by (simp only: round_half_even_of_int)
  then have "real_of_int (round_half_even (x / ?u)) \<le> of_int (2 ^ 24)"
    by (simp only: of_int_le_iff)
  then show ?thesis
    unfolding split using ulp32_pos [of x] by (simp only: mult_le_cancel_right_pos)
qed

lemma magnitude_lower:
  assumes "0 < x" and "- 126 < expo32 x"
  shows "2 powr real_of_int (expo32 x) \<le> of_int (round_half_even (x / ulp32 x)) * ulp32 x"
proof -
  let ?u = "ulp32 x"
  have split: "2 powr real_of_int (expo32 x) = of_int (2 ^ 23) * ?u"
  proof -
    have "expo32 x = 23 + (expo32 x - 23)" by simp
    then have "2 powr real_of_int (expo32 x) = 2 powr real_of_int (23 + (expo32 x - 23))"
      by (rule arg_cong)
    also have "\<dots> = 2 powr real_of_int 23 * ?u"
      unfolding ulp32_def by (rule powr_split)
    finally show ?thesis by simp
  qed
  have "of_int (2 ^ 23) \<le> x / ?u"
    using above_binade [OF assms] ulp32_pos [of x] unfolding split
    by (simp add: pos_le_divide_eq)
  then have "2 ^ 23 \<le> round_half_even (x / ?u)"
    using round_half_even_mono [of "of_int (2 ^ 23)" "x / ?u"]
    by (simp only: round_half_even_of_int)
  then have "of_int (2 ^ 23) \<le> real_of_int (round_half_even (x / ?u))"
    by (simp only: of_int_le_iff)
  then show ?thesis
    unfolding split using ulp32_pos [of x] by (simp only: mult_le_cancel_right_pos)
qed

lemma magnitude_mono:
  assumes "0 < x" and "x \<le> y"
  shows "of_int (round_half_even (x / ulp32 x)) * ulp32 x
           \<le> of_int (round_half_even (y / ulp32 y)) * ulp32 y"
proof (cases "expo32 x = expo32 y")
  case True
  then have u: "ulp32 y = ulp32 x" by (simp add: ulp32_def)
  have "x / ulp32 x \<le> y / ulp32 x"
    using assms(2) ulp32_pos [of x] by (simp add: divide_right_mono)
  then have "round_half_even (x / ulp32 x) \<le> round_half_even (y / ulp32 x)"
    by (rule round_half_even_mono)
  then have "real_of_int (round_half_even (x / ulp32 x)) \<le> real_of_int (round_half_even (y / ulp32 x))"
    by (simp only: of_int_le_iff)
  then show ?thesis
    unfolding u using ulp32_pos [of x] by (simp only: mult_le_cancel_right_pos)
next
  case False
  have y: "0 < y" using assms by linarith
  have lt: "expo32 x + 1 \<le> expo32 y"
    using False expo32_mono [OF assms] by linarith
  have "- 126 \<le> expo32 x" by (simp add: expo32_def)
  with lt have big: "- 126 < expo32 y" by linarith
  have "of_int (round_half_even (x / ulp32 x)) * ulp32 x \<le> 2 powr real_of_int (expo32 x + 1)"
    using assms(1) by (rule magnitude_upper)
  also have "\<dots> \<le> 2 powr real_of_int (expo32 y)"
    using lt by simp
  also have "\<dots> \<le> of_int (round_half_even (y / ulp32 y)) * ulp32 y"
    using y big by (rule magnitude_lower)
  finally show ?thesis .
qed

lemma magnitude_nonneg: "0 \<le> of_int (round_half_even (\<bar>x\<bar> / ulp32 x)) * ulp32 x"
proof -
  have "0 \<le> \<bar>x\<bar> / ulp32 x"
    using ulp32_pos [of x] by simp
  then have "0 \<le> round_half_even (\<bar>x\<bar> / ulp32 x)"
    by (rule round_half_even_nonneg)
  then show ?thesis
    using ulp32_pos [of x] by simp
qed

lemma rnd32_zero: "rnd32 0 = 0"
  by (simp add: rnd32_def)

lemma rnd32_pos: "0 < x \<Longrightarrow> rnd32 x = of_int (round_half_even (x / ulp32 x)) * ulp32 x"
  by (simp add: rnd32_def)

lemma rnd32_neg: "x < 0 \<Longrightarrow> rnd32 x = - (of_int (round_half_even (- x / ulp32 (- x))) * ulp32 (- x))"
  using ulp32_abs [of x] by (simp add: rnd32_def)

lemma rnd32_nonneg: "0 \<le> x \<Longrightarrow> 0 \<le> rnd32 x"
  using magnitude_nonneg [of x] by (cases "x = 0") (simp_all add: rnd32_def)

lemma rnd32_nonpos: "x \<le> 0 \<Longrightarrow> rnd32 x \<le> 0"
  using magnitude_nonneg [of x] by (cases "x = 0") (simp_all add: rnd32_def)

lemma rnd32_mono: "x \<le> y \<Longrightarrow> rnd32 x \<le> rnd32 y"
proof -
  assume xy: "x \<le> y"
  consider "0 < x" | "x \<le> 0" "0 \<le> y" | "y < 0" by linarith
  then show ?thesis
  proof cases
    case 1
    then have "0 < y" using xy by linarith
    then show ?thesis
      using magnitude_mono [OF 1 xy] 1 by (simp add: rnd32_pos)
  next
    case 2
    then show ?thesis
      using rnd32_nonpos [of x] rnd32_nonneg [of y] by linarith
  next
    case 3
    then have x: "x < 0" using xy by linarith
    have "of_int (round_half_even (- y / ulp32 (- y))) * ulp32 (- y)
            \<le> of_int (round_half_even (- x / ulp32 (- x))) * ulp32 (- x)"
      using 3 xy by (intro magnitude_mono) simp_all
    then show ?thesis
      using 3 x by (simp add: rnd32_neg)
  qed
qed

lemma rnd32_one: "rnd32 1 = 1"
proof -
  have e: "expo32 1 = 0" by (simp add: expo32_def)
  have u: "ulp32 1 = 1 / 2 ^ 23"
    by (simp add: ulp32_def e powr_minus_divide flip: powr_realpow)
  have "round_half_even (1 / ulp32 1) = 2 ^ 23"
    using round_half_even_of_int [of "2 ^ 23"] by (simp add: u)
  then show ?thesis
    by (simp add: rnd32_pos u)
qed

lemma rnd32_half: "rnd32 (1 / 2) = 1 / 2"
proof -
  have "log 2 (1 / 2) = - 1"
    by (simp add: log_divide)
  moreover have "\<lfloor>- 1 :: real\<rfloor> = - 1"
    using floor_of_int [of "- 1", where ?'a = real] by simp
  ultimately have e: "expo32 (1 / 2) = - 1" by (simp add: expo32_def)
  have u: "ulp32 (1 / 2) = 1 / 2 ^ 24"
    by (simp add: ulp32_def e powr_minus_divide flip: powr_realpow)
  have "round_half_even ((1 / 2) / ulp32 (1 / 2)) = 2 ^ 23"
    using round_half_even_of_int [of "2 ^ 23"] by (simp add: u)
  then show ?thesis
    by (simp add: rnd32_pos u)
qed

lemma one_le_fmax32: "1 \<le> fmax32"
  by (simp add: fmax32_def)


lemma round_to32_Fin: "round_to32 x = Fin y \<Longrightarrow> y = rnd32 x \<and> - fmax32 \<le> y \<and> y \<le> fmax32"
  by (auto simp: round_to32_def Let_def split: if_splits)

lemma round_to32_within: "- fmax32 \<le> rnd32 x \<Longrightarrow> rnd32 x \<le> fmax32 \<Longrightarrow> round_to32 x = Fin (rnd32 x)"
  by (simp add: round_to32_def Let_def)

lemma fmax32_pos: "0 < fmax32"
  using one_le_fmax32 by linarith

lemma round_to32_zero: "round_to32 0 = Fin 0"
  using fmax32_pos by (simp add: round_to32_within rnd32_zero)

lemma round_to32_one: "round_to32 1 = Fin 1"
  using one_le_fmax32 by (simp add: round_to32_within rnd32_one)

lemma round_to32_half: "round_to32 (1 / 2) = Fin (1 / 2)"
  using one_le_fmax32 by (simp add: round_to32_within rnd32_half)

lemma round_to32_unit:
  assumes "0 \<le> q" and "q \<le> 1"
  shows "\<exists>y. round_to32 q = Fin y \<and> 0 \<le> y \<and> y \<le> 1"
proof -
  have lo: "0 \<le> rnd32 q"
    using assms(1) by (rule rnd32_nonneg)
  have hi: "rnd32 q \<le> 1"
    using rnd32_mono [OF assms(2)] by (simp add: rnd32_one)
  have "round_to32 q = Fin (rnd32 q)"
    using lo hi one_le_fmax32 by (intro round_to32_within) linarith+
  then show ?thesis
    using lo hi by blast
qed

lemma round_to32_between:
  assumes "0 \<le> a" and "a \<le> b" and "round_to32 b = Fin d"
  shows "\<exists>y. round_to32 a = Fin y \<and> 0 \<le> y \<and> y \<le> d"
proof -
  have d: "d = rnd32 b \<and> - fmax32 \<le> d \<and> d \<le> fmax32"
    using assms(3) by (rule round_to32_Fin)
  have lo: "0 \<le> rnd32 a"
    using assms(1) by (rule rnd32_nonneg)
  have hi: "rnd32 a \<le> d"
    using rnd32_mono [OF assms(2)] d by simp
  have "round_to32 a = Fin (rnd32 a)"
    using lo hi d fmax32_pos by (intro round_to32_within) linarith+
  then show ?thesis
    using lo hi by blast
qed

section \<open>Properties of the loader\<close>

lemma and_then_Inr [simp]: "and_then (Inr x) f = f x"
  by (simp add: and_then_def)

lemma and_then_Inl [simp]: "and_then (Inl e) f = Inl e"
  by (simp add: and_then_def)

lemma has_shape_map3:
  "has_shape s (map (map (map f)) t) = has_shape s t"
  by (cases s) (simp add: has_shape_def list_all_iff)

lemma list_all3_map3:
  "(\<And>x. x \<in> set (concat (concat t)) \<Longrightarrow> P (f x)) \<Longrightarrow>
     list_all (list_all (list_all P)) (map (map (map f)) t)"
  by (auto simp: list_all_iff)

lemma map3_cong:
  "(\<And>x. x \<in> set (concat (concat t)) \<Longrightarrow> f x = g x) \<Longrightarrow>
     map (map (map f)) t = map (map (map g)) t"
  by (auto intro!: map_cong)

subsection \<open>The reductions\<close>

lemma fmin2_Fin:
  assumes "fmin2 x a = Fin r"
  shows "x \<noteq> NaN \<and> x \<noteq> NegInf \<and> a \<noteq> NaN \<and> a \<noteq> NegInf \<and>
         (\<forall>c. x = Fin c \<longrightarrow> r \<le> c) \<and> (\<forall>c. a = Fin c \<longrightarrow> r \<le> c)"
  using assms by (cases x; cases a) auto

lemma fmax2_Fin:
  assumes "fmax2 x a = Fin r"
  shows "x \<noteq> NaN \<and> x \<noteq> PosInf \<and> a \<noteq> NaN \<and> a \<noteq> PosInf \<and>
         (\<forall>c. x = Fin c \<longrightarrow> c \<le> r) \<and> (\<forall>c. a = Fin c \<longrightarrow> c \<le> r)"
  using assms by (cases x; cases a) auto

lemma fmin2_not_Fin:
  "fmin2 x a = NaN \<or> fmin2 x a = NegInf \<or> fmin2 x a = PosInf \<or> (\<exists>r. fmin2 x a = Fin r)"
  by (cases "fmin2 x a") auto

lemma fold_fmin2_Fin:
  "fold fmin2 xs a = Fin lo \<Longrightarrow>
     v \<in> set (a # xs) \<Longrightarrow> v \<noteq> NaN \<and> v \<noteq> NegInf \<and> (\<forall>c. v = Fin c \<longrightarrow> lo \<le> c)"
proof (induction xs arbitrary: a v)
  case Nil
  then show ?case by auto
next
  case (Cons x xs)
  have run: "fold fmin2 xs (fmin2 x a) = Fin lo"
    using Cons.prems(1) by simp
  have acc: "fmin2 x a \<noteq> NaN \<and> fmin2 x a \<noteq> NegInf \<and> (\<forall>c. fmin2 x a = Fin c \<longrightarrow> lo \<le> c)"
    using Cons.IH [OF run, of "fmin2 x a"] by simp
  show ?case
  proof (cases "v \<in> set xs")
    case True
    then show ?thesis
      using Cons.IH [OF run, of v] by simp
  next
    case False
    then have v: "v = x \<or> v = a"
      using Cons.prems(2) by auto
    show ?thesis
    proof (cases "fmin2 x a")
      case (Fin r)
      then have "lo \<le> r" using acc by simp
      then show ?thesis
        using fmin2_Fin [OF Fin] v by fastforce
    next
      case NaN
      then show ?thesis using acc by simp
    next
      case PosInf
      then have "x = PosInf \<and> a = PosInf"
        by (cases x; cases a) auto
      then show ?thesis using v by auto
    next
      case NegInf
      then show ?thesis using acc by simp
    qed
  qed
qed

lemma fold_fmax2_Fin:
  "fold fmax2 xs a = Fin hi \<Longrightarrow>
     v \<in> set (a # xs) \<Longrightarrow> v \<noteq> NaN \<and> v \<noteq> PosInf \<and> (\<forall>c. v = Fin c \<longrightarrow> c \<le> hi)"
proof (induction xs arbitrary: a v)
  case Nil
  then show ?case by auto
next
  case (Cons x xs)
  have run: "fold fmax2 xs (fmax2 x a) = Fin hi"
    using Cons.prems(1) by simp
  have acc: "fmax2 x a \<noteq> NaN \<and> fmax2 x a \<noteq> PosInf \<and> (\<forall>c. fmax2 x a = Fin c \<longrightarrow> c \<le> hi)"
    using Cons.IH [OF run, of "fmax2 x a"] by simp
  show ?case
  proof (cases "v \<in> set xs")
    case True
    then show ?thesis
      using Cons.IH [OF run, of v] by simp
  next
    case False
    then have v: "v = x \<or> v = a"
      using Cons.prems(2) by auto
    show ?thesis
    proof (cases "fmax2 x a")
      case (Fin r)
      then have "r \<le> hi" using acc by simp
      then show ?thesis
        using fmax2_Fin [OF Fin] v by fastforce
    next
      case NaN
      then show ?thesis using acc by simp
    next
      case PosInf
      then show ?thesis using acc by simp
    next
      case NegInf
      then have "x = NegInf \<and> a = NegInf"
        by (cases x; cases a) auto
      then show ?thesis using v by auto
    qed
  qed
qed

lemma tensor_min_nonempty: "tensor_min t = Inr lo \<Longrightarrow> concat (concat t) \<noteq> []"
  by (cases "concat (concat t)") (simp_all add: tensor_min_def)

lemma tensor_min_total:
  "concat (concat t) \<noteq> [] \<Longrightarrow> \<exists>lo. tensor_min t = Inr lo"
  by (cases "concat (concat t)") (simp_all add: tensor_min_def)

lemma tensor_max_total:
  "concat (concat t) \<noteq> [] \<Longrightarrow> \<exists>hi. tensor_max t = Inr hi"
  by (cases "concat (concat t)") (simp_all add: tensor_max_def)

text \<open>
  When the minimum and the maximum of a tensor are finite, so is every entry, and it
  lies between them.
\<close>

lemma tensor_bounds:
  assumes "tensor_min t = Inr (Fin lo)" and "tensor_max t = Inr (Fin hi)"
    and "v \<in> set (concat (concat t))"
  shows "\<exists>c. v = Fin c \<and> lo \<le> c \<and> c \<le> hi"
proof (cases "concat (concat t)")
  case Nil
  with assms(3) show ?thesis by (simp del: set_concat)
next
  case (Cons x xs)
  have mn: "fold fmin2 xs x = Fin lo"
    using assms(1) Cons by (simp add: tensor_min_def)
  have mx: "fold fmax2 xs x = Fin hi"
    using assms(2) Cons by (simp add: tensor_max_def)
  have v: "v \<in> set (x # xs)"
    using assms(3) Cons by (simp del: set_concat)
  have a: "v \<noteq> NaN \<and> v \<noteq> NegInf \<and> (\<forall>c. v = Fin c \<longrightarrow> lo \<le> c)"
    using mn v by (rule fold_fmin2_Fin)
  have b: "v \<noteq> NaN \<and> v \<noteq> PosInf \<and> (\<forall>c. v = Fin c \<longrightarrow> c \<le> hi)"
    using mx v by (rule fold_fmax2_Fin)
  show ?thesis
    using a b by (cases v) auto
qed

lemma tensor_min_le_max:
  assumes "tensor_min t = Inr (Fin lo)" and "tensor_max t = Inr (Fin hi)"
  shows "lo \<le> hi"
proof -
  have "concat (concat t) \<noteq> []"
    using assms(1) by (rule tensor_min_nonempty)
  then have "hd (concat (concat t)) \<in> set (concat (concat t))"
    by (rule hd_in_set)
  then obtain c where "lo \<le> c \<and> c \<le> hi"
    using tensor_bounds [OF assms] by blast
  then show ?thesis by linarith
qed

subsection \<open>The normalisation\<close>

lemma normalize_eq:
  assumes "tensor_min t = Inr lo" and "tensor_max t = Inr hi"
  shows "normalize_cube t = Inr (map (map (map (\<lambda>x. fdiv (fsub x lo) (fsub hi lo)))) t)"
  using assms by (simp add: normalize_cube_def)

lemma normalize_in_unit:
  assumes "tensor_min t = Inr (Fin lo)" and "tensor_max t = Inr (Fin hi)"
    and "fsub (Fin hi) (Fin lo) = Fin d" and "d \<noteq> 0"
  shows "list_all (list_all (list_all in_unit))
           (map (map (map (\<lambda>x. fdiv (fsub x (Fin lo)) (fsub (Fin hi) (Fin lo))))) t)"
proof (rule list_all3_map3)
  fix v assume v: "v \<in> set (concat (concat t))"
  obtain c where c: "v = Fin c" "lo \<le> c" "c \<le> hi"
    using tensor_bounds [OF assms(1,2) v] by blast
  have rd: "round_to32 (hi - lo) = Fin d"
    using assms(3) by simp
  obtain y where y: "round_to32 (c - lo) = Fin y" "0 \<le> y" "y \<le> d"
    using round_to32_between [of "c - lo" "hi - lo" d] c rd by auto
  have dpos: "0 < d"
    using y assms(4) by linarith
  obtain q where q: "round_to32 (y / d) = Fin q" "0 \<le> q" "q \<le> 1"
    using round_to32_unit [of "y / d"] y dpos by auto
  have "fdiv (fsub v (Fin lo)) (fsub (Fin hi) (Fin lo)) = Fin q"
    using c y q dpos rd by simp
  then show "in_unit (fdiv (fsub v (Fin lo)) (fsub (Fin hi) (Fin lo)))"
    using q by (simp add: in_unit_def)
qed

lemma normalize_constant:
  assumes "tensor_min t = Inr (Fin c)" and "tensor_max t = Inr (Fin c)"
  shows "normalize_cube t = Inr (map (map (map (\<lambda>x. fdiv (fsub x (Fin c)) (Fin 0)))) t)"
    and "normalize_cube t = Inr (map (map (map (\<lambda>x. NaN))) t)"
proof -
  show first: "normalize_cube t = Inr (map (map (map (\<lambda>x. fdiv (fsub x (Fin c)) (Fin 0)))) t)"
    by (simp add: normalize_eq [OF assms] round_to32_zero)
  have "map (map (map (\<lambda>x. fdiv (fsub x (Fin c)) (Fin 0)))) t = map (map (map (\<lambda>x. NaN))) t"
  proof (rule map3_cong)
    fix v assume v: "v \<in> set (concat (concat t))"
    have "v = Fin c"
      using tensor_bounds [OF assms v] by auto
    then show "fdiv (fsub v (Fin c)) (Fin 0) = NaN"
      by (simp add: round_to32_zero)
  qed
  then show "normalize_cube t = Inr (map (map (map (\<lambda>x. NaN))) t)"
    by (simp only: first)
qed

subsection \<open>The resize\<close>

lemma py_index_nat: "k < length xs \<Longrightarrow> py_index xs (int k) = Inr (xs ! k)"
  by (simp add: py_index_def Let_def)

lemma permute_201_eq:
  "raw = (px # pxs) # rows \<Longrightarrow>
   permute_201 raw = map (\<lambda>c. map (\<lambda>r. map (\<lambda>p. p ! c) r) raw) [0..<length px]"
  by (simp add: permute_201_def)

lemma interpolate_bilinear_eq:
  "m = r # rs \<Longrightarrow> r \<noteq> [] \<Longrightarrow>
   interpolate_bilinear kern (32, 32) (m # ms) =
     Inr (map (\<lambda>ch. map (\<lambda>oh. map (\<lambda>ow. kern (32, 32) ch oh ow) [0..<32]) [0..<32]) (m # ms))"
  by (simp add: interpolate_bilinear_def)

lemma has_shape_nonempty:
  assumes "has_shape (a, b, c) t" and "0 < a" and "0 < b" and "0 < c"
  shows "concat (concat t) \<noteq> []"
proof -
  from assms(1,2) obtain m ms where t: "t = m # ms"
    by (cases t) (simp_all add: has_shape_def)
  with assms(1,3) obtain r rs where m: "m = r # rs"
    by (cases m) (simp_all add: has_shape_def)
  with t assms(1,4) have "r \<noteq> []"
    by (auto simp: has_shape_def)
  with t m show ?thesis by simp
qed

lemma permute_201_shape:
  assumes "has_shape (h, w, c) raw" and "0 < h" and "0 < w" and "0 < c"
  shows "\<exists>r rs ms. permute_201 raw = (r # rs) # ms \<and> r \<noteq> [] \<and> length (permute_201 raw) = c"
proof -
  from assms(1,2) obtain row rows where raw: "raw = row # rows"
    by (cases raw) (simp_all add: has_shape_def)
  with assms(1,3) obtain px pxs where row: "row = px # pxs"
    by (cases row) (simp_all add: has_shape_def)
  from raw row assms(1) have c: "length px = c"
    by (simp add: has_shape_def)
  have upt: "[0..<length px] = 0 # [Suc 0..<length px]"
    using c assms(4) by (intro upt_conv_Cons) simp
  have eq: "permute_201 raw = map (\<lambda>c. map (\<lambda>r. map (\<lambda>p. p ! c) r) raw) [0..<length px]"
    using raw row by (intro permute_201_eq) simp
  have "permute_201 raw =
      (map (\<lambda>p. p ! 0) (px # pxs) # map (\<lambda>r. map (\<lambda>p. p ! 0) r) rows) #
      map (\<lambda>c. map (\<lambda>r. map (\<lambda>p. p ! c) r) raw) [Suc 0..<length px]"
    unfolding eq by (subst upt) (simp add: raw row)
  moreover have "length (permute_201 raw) = c"
    unfolding eq using c by simp
  ultimately show ?thesis by blast
qed

lemma resize_cube_shape:
  assumes "has_shape (h, w, c) raw" and "0 < h" and "0 < w" and "0 < c"
  shows "\<exists>r. resize_cube kern raw = Inr r \<and> has_shape (c, 32, 32) r"
proof -
  let ?cast = "map (map (map to_float32)) raw"
  have "has_shape (h, w, c) ?cast"
    using assms(1) by (simp only: has_shape_map3)
  then obtain r rs ms where p: "permute_201 ?cast = (r # rs) # ms" and r: "r \<noteq> []"
    and len: "length (permute_201 ?cast) = c"
    using permute_201_shape [OF _ assms(2-4)] by blast
  have "resize_cube kern raw =
     Inr (map (\<lambda>ch. map (\<lambda>oh. map (\<lambda>ow. kern (32, 32) ch oh ow) [0..<32]) [0..<32])
          (permute_201 ?cast))"
    unfolding resize_cube_def p using r by (intro interpolate_bilinear_eq) simp_all
  moreover have "has_shape (c, 32, 32)
     (map (\<lambda>ch. map (\<lambda>oh. map (\<lambda>ow. kern (32, 32) ch oh ow) [0..<32]) [0..<32])
          (permute_201 ?cast))"
    using len by (simp add: has_shape_def list_all_iff)
  ultimately show ?thesis by simp
qed

subsection \<open>The documented kernel on particular shapes\<close>

lemma index0_single: "index0 (Suc 0) n dst = 0"
  by (simp add: index0_def)

lemma index1_single: "index1 (Suc 0) n dst = 0"
  by (simp add: index1_def index0_def)

lemma lambda_blend: "lambda0 a b dst * x + lambda1 a b dst * x = x"
  by (simp add: lambda0_def algebra_simps)

lemma source_index_halve: "source_index 64 32 dst = 2 * real dst + 1 / 2"
  by (simp add: source_index_def max_def)

lemma index0_halve: "dst < 32 \<Longrightarrow> index0 64 32 dst = 2 * dst"
proof -
  assume d: "dst < 32"
  have "\<lfloor>2 * real dst + 1 / 2\<rfloor> = int (2 * dst)"
    by (simp add: floor_eq_iff)
  then have "nat \<lfloor>source_index 64 32 dst\<rfloor> = 2 * dst"
    by (simp only: source_index_halve nat_int)
  then show ?thesis
    using d by (simp add: index0_def)
qed

lemma index1_halve: "dst < 32 \<Longrightarrow> index1 64 32 dst = 2 * dst + 1"
  by (simp add: index1_def index0_halve)

lemma lambda1_halve: "dst < 32 \<Longrightarrow> lambda1 64 32 dst = 1 / 2"
  by (simp add: lambda1_def index0_halve source_index_halve)

lemma lambda0_halve: "dst < 32 \<Longrightarrow> lambda0 64 32 dst = 1 / 2"
  by (simp add: lambda0_def lambda1_halve)

lemma bilinear_single_column:
  "bilinear_at (a, b) h (Suc 0) m oh ow =
     lambda0 h a oh * m ! index0 h a oh ! 0 + lambda1 h a oh * m ! index1 h a oh ! 0"
  by (simp add: bilinear_at_def index0_single index1_single lambda_blend)

lemma bilinear_single_pixel: "bilinear_at (a, b) (Suc 0) (Suc 0) m oh ow = m ! 0 ! 0"
  by (simp add: bilinear_single_column index0_single index1_single lambda_blend)

lemma map_const_upt: "(\<And>i. i < n \<Longrightarrow> f i = c) \<Longrightarrow> map f [0..<n] = replicate n c"
proof -
  assume "\<And>i. i < n \<Longrightarrow> f i = c"
  then have "map f [0..<n] = map (\<lambda>i. c) [0..<n]"
    by (intro map_cong) simp_all
  then show ?thesis
    by (simp add: map_replicate_const)
qed

text \<open>A single pixel is spread over the 32 by 32 positions of each band.\<close>

lemma kernel_single_pixel:
  "bilinear_kernel (32, 32) [[Fin x]] oh ow = round_to32 x"
  by (simp add: bilinear_kernel_def bilinear_single_pixel)

lemma resize_pixel:
  assumes "list_all (\<lambda>v. \<exists>x. v = Fin x \<and> round_to32 x = Fin x) (v # vs)"
  shows "resize_cube bilinear_kernel [[v # vs]] =
           Inr (map (\<lambda>x. replicate 32 (replicate 32 x)) (v # vs))"
proof -
  let ?px = "v # vs"
  have cast: "map (map (map to_float32)) [[?px]] = [[?px]]"
  proof -
    have "map to_float32 ?px = map (\<lambda>x. x) ?px"
      using assms by (intro map_cong) (auto simp: list_all_iff)
    then show ?thesis by simp
  qed
  have perm: "permute_201 [[?px]] = map (\<lambda>c. [[?px ! c]]) [0..<length ?px]"
    by (simp add: permute_201_def)
  have upt: "[0..<length ?px] = 0 # [Suc 0..<length ?px]"
    by (rule upt_conv_Cons) simp
  have cons: "map (\<lambda>c. [[?px ! c]]) [0..<length ?px] = [[v]] # map (\<lambda>c. [[?px ! c]]) [Suc 0..<length ?px]"
    by (subst upt) simp
  have entry: "map (\<lambda>oh. map (\<lambda>ow. bilinear_kernel (32, 32) [[?px ! c]] oh ow) [0..<32]) [0..<32]
          = replicate 32 (replicate 32 (?px ! c))" if "c < length ?px" for c
  proof -
    have "?px ! c \<in> set ?px"
      using that by (rule nth_mem)
    then have "\<exists>x. ?px ! c = Fin x \<and> round_to32 x = Fin x"
      using assms unfolding list_all_iff by blast
    then obtain x where x: "?px ! c = Fin x" "round_to32 x = Fin x"
      by blast
    show ?thesis
      by (simp only: x kernel_single_pixel map_replicate_const length_upt diff_zero)
  qed
  have "interpolate_bilinear bilinear_kernel (32, 32) (map (\<lambda>c. [[?px ! c]]) [0..<length ?px]) =
     Inr (map (\<lambda>ch. map (\<lambda>oh. map (\<lambda>ow. bilinear_kernel (32, 32) ch oh ow) [0..<32]) [0..<32])
          (map (\<lambda>c. [[?px ! c]]) [0..<length ?px]))"
    unfolding cons by (rule interpolate_bilinear_eq [where r = "[v]" and rs = "[]"]) simp_all
  also have "map (\<lambda>ch. map (\<lambda>oh. map (\<lambda>ow. bilinear_kernel (32, 32) ch oh ow) [0..<32]) [0..<32])
          (map (\<lambda>c. [[?px ! c]]) [0..<length ?px])
      = map (\<lambda>c. replicate 32 (replicate 32 (?px ! c))) [0..<length ?px]"
    unfolding map_map comp_def
  proof (rule map_cong [OF refl])
    fix c assume "c \<in> set [0..<length ?px]"
    then have "c < length ?px" by auto
    then show "map (\<lambda>oh. map (\<lambda>ow. bilinear_kernel (32, 32) [[?px ! c]] oh ow) [0..<32]) [0..<32]
          = replicate 32 (replicate 32 (?px ! c))"
      by (rule entry)
  qed
  also have "map (\<lambda>c. replicate 32 (replicate 32 (?px ! c))) [0..<length ?px]
        = map (\<lambda>x. replicate 32 (replicate 32 x)) (map (\<lambda>c. ?px ! c) [0..<length ?px])"
    by (simp add: comp_def)
  also have "map (\<lambda>c. ?px ! c) [0..<length ?px] = ?px"
    by (rule map_nth)
  finally show ?thesis
    by (simp only: resize_cube_def cast perm)
qed

text \<open>Halving the 64 rows of \<open>alt_column\<close> averages each pair (0, 1).\<close>

lemma alt_column_Cons:
  "alt_column = [[Fin 0]] # map (\<lambda>h. [[Fin (if even h then 0 else 1)]]) [Suc 0..<64]"
  unfolding alt_column_def by (subst upt_conv_Cons) simp_all

lemma alt_column_cast: "map (map (map to_float32)) alt_column = alt_column"
  by (simp add: alt_column_def round_to32_zero round_to32_one)

lemma alt_column_channel:
  "permute_201 alt_column = [map (\<lambda>h. [Fin (if even h then 0 else 1)]) [0..<64]]"
proof -
  have "permute_201 alt_column = map (\<lambda>c. map (\<lambda>r. map (\<lambda>p. p ! c) r) alt_column) [0..<length [Fin 0]]"
    using alt_column_Cons by (rule permute_201_eq)
  then show ?thesis
    by (simp add: alt_column_def comp_def)
qed

lemma resize_alt_column:
  "resize_cube bilinear_kernel alt_column = Inr [replicate 32 (replicate 32 (Fin (1 / 2)))]"
proof -
  let ?m = "map (\<lambda>h. [Fin (if even h then 0 else (1::real))]) [0..<64]"
  let ?v = "map (\<lambda>h. [if even h then 0 else (1::real)]) [0..<64]"
  have m: "?m = [Fin 0] # map (\<lambda>h. [Fin (if even h then 0 else (1::real))]) [Suc 0..<64]"
    by (subst upt_conv_Cons) simp_all
  have fin: "list_all (list_all is_fin) ?m"
    by (simp add: list_all_iff)
  have vals: "map (map fin_value) ?m = ?v"
    by (simp add: comp_def)
  have hd_len: "length (hd ?m) = Suc 0"
    by (subst m) simp
  have real_entry: "bilinear_at (32, 32) 64 (Suc 0) ?v oh ow = 1 / 2" if "oh < 32" for oh ow
    using that
    by (simp add: bilinear_single_column index0_halve index1_halve lambda0_halve lambda1_halve)
  have entry: "bilinear_kernel (32, 32) ?m oh ow = Fin (1 / 2)" if "oh < 32" for oh ow
  proof -
    have "bilinear_kernel (32, 32) ?m oh ow =
            round_to32 (bilinear_at (32, 32) (length ?m) (length (hd ?m)) (map (map fin_value) ?m) oh ow)"
      unfolding bilinear_kernel_def using fin by (rule if_P)
    also have "\<dots> = round_to32 (bilinear_at (32, 32) 64 (Suc 0) ?v oh ow)"
      unfolding vals hd_len by simp
    also have "\<dots> = Fin (1 / 2)"
      unfolding real_entry [OF that] by (rule round_to32_half)
    finally show ?thesis .
  qed
  have "interpolate_bilinear bilinear_kernel (32, 32) [?m] =
     Inr (map (\<lambda>ch. map (\<lambda>oh. map (\<lambda>ow. bilinear_kernel (32, 32) ch oh ow) [0..<32]) [0..<32]) [?m])"
    using m by (rule interpolate_bilinear_eq) simp
  also have "\<dots> = Inr [map (\<lambda>oh. map (\<lambda>ow. bilinear_kernel (32, 32) ?m oh ow) [0..<32]) [0..<32]]"
    by simp
  also have "map (\<lambda>oh. map (\<lambda>ow. bilinear_kernel (32, 32) ?m oh ow) [0..<32]) [0..<32]
     = replicate 32 (replicate 32 (Fin (1 / 2)))"
    by (rule map_const_upt) (simp add: entry map_replicate_const)
  finally show ?thesis
    by (simp only: resize_cube_def alt_column_cast alt_column_channel)
qed

subsection \<open>Particular values\<close>

lemma expo32_binade:
  assumes "2 powr real_of_int e \<le> \<bar>x\<bar>" and "\<bar>x\<bar> < 2 powr real_of_int (e + 1)" and "- 126 \<le> e"
  shows "expo32 x = e"
proof -
  have pos: "0 < \<bar>x\<bar>"
    using assms(1) powr_gt_zero [of 2 "real_of_int e"] by linarith
  have "real_of_int e \<le> log 2 \<bar>x\<bar>"
    using assms(1) pos by (simp add: le_log_iff)
  moreover have "log 2 \<bar>x\<bar> < real_of_int e + 1"
    using assms(2) pos by (simp add: log_less_iff add.commute)
  ultimately have "\<lfloor>log 2 \<bar>x\<bar>\<rfloor> = e"
    by (intro floor_unique) simp_all
  then show ?thesis
    using assms(3) by (simp add: expo32_def)
qed

lemma rnd32_exact:
  assumes "expo32 x = e" and "0 < x" and "x = of_int k * 2 powr real_of_int (e - 23)"
  shows "rnd32 x = x"
proof -
  have u: "ulp32 x = 2 powr real_of_int (e - 23)"
    by (simp add: ulp32_def assms(1))
  have "x / ulp32 x = of_int k"
    unfolding u by (subst assms(3)) simp
  then have "round_half_even (x / ulp32 x) = k"
    by (simp only: round_half_even_of_int)
  then have "rnd32 x = of_int k * 2 powr real_of_int (e - 23)"
    by (simp only: rnd32_pos [OF assms(2)] u)
  then show ?thesis
    by (simp only: assms(3) [symmetric])
qed

lemma rnd32_minus: "rnd32 (- x) = - rnd32 x"
  using ulp32_abs [of x] ulp32_abs [of "- x"] by (simp add: rnd32_def sgn_minus)

lemma rnd32_pow127: "rnd32 (2 ^ 127) = 2 ^ 127"
proof -
  have e: "expo32 (2 ^ 127) = 127"
    by (rule expo32_binade) (simp_all flip: powr_realpow)
  show ?thesis
    by (rule rnd32_exact [OF e, of "2 ^ 23"]) (simp_all flip: powr_realpow powr_add)
qed

lemma rnd32_pow128: "rnd32 (2 ^ 128) = 2 ^ 128"
proof -
  have e: "expo32 (2 ^ 128) = 128"
    by (rule expo32_binade) (simp_all flip: powr_realpow)
  show ?thesis
    by (rule rnd32_exact [OF e, of "2 ^ 23"]) (simp_all flip: powr_realpow powr_add)
qed

lemma round_to32_pow127: "round_to32 pow127 = Fin pow127"
proof -
  have "- fmax32 \<le> pow127" and "pow127 \<le> fmax32"
    by (simp_all add: fmax32_def pow127_def)
  moreover have "rnd32 pow127 = pow127"
    unfolding pow127_def by (rule rnd32_pow127)
  ultimately show ?thesis
    using round_to32_within [of pow127] by simp
qed

lemma round_to32_minus_pow127: "round_to32 (- pow127) = Fin (- pow127)"
proof -
  have "- fmax32 \<le> - pow127" and "- pow127 \<le> fmax32"
    by (simp_all add: fmax32_def pow127_def)
  moreover have "rnd32 (- pow127) = - pow127"
    unfolding pow127_def rnd32_minus by (simp only: rnd32_pow127)
  ultimately show ?thesis
    using round_to32_within [of "- pow127"] by simp
qed

lemma round_to32_pow128: "round_to32 (2 * pow127) = PosInf"
proof -
  have s: "2 * pow127 = 2 ^ 128"
    by (simp add: pow127_def)
  have "fmax32 < (2::real) ^ 128"
    by (simp add: fmax32_def)
  then show ?thesis
    unfolding s by (simp only: round_to32_def Let_def rnd32_pow128 if_True)
qed

lemma pow127_pos: "0 < pow127"
  by (simp add: pow127_def)

text \<open>
  The cast to 32 bits rounds: \<open>2\<^sup>2\<^sup>4 + 1\<close> lies halfway between two representable
  numbers and goes to the even one, \<open>2\<^sup>2\<^sup>4\<close>.
\<close>

lemma cast_rounds_to_even: "to_float32 (Fin 16777217) = Fin 16777216"
proof -
  have e: "expo32 16777217 = 24"
    by (rule expo32_binade) (simp_all flip: powr_realpow)
  have u: "ulp32 16777217 = 2"
    by (simp add: ulp32_def e)
  have "\<lfloor>16777217 / 2 :: real\<rfloor> = 8388608"
    by (simp add: floor_eq_iff)
  then have "round_half_even (16777217 / 2) = 8388608"
    by (simp add: round_half_even_def Let_def)
  then have "rnd32 16777217 = 16777216"
    by (simp add: rnd32_pos u)
  then show ?thesis
    by (simp add: round_to32_def fmax32_def)
qed

subsection \<open>The reductions on finite tensors\<close>

lemma fold_fmin2_finite:
  "list_all is_fin xs \<Longrightarrow> fold fmin2 xs (Fin a) = Fin (fold min (map fin_value xs) a)"
proof (induction xs arbitrary: a)
  case Nil
  show ?case by simp
next
  case (Cons x xs)
  then obtain b where "x = Fin b" by (cases x) simp_all
  then show ?case
    using Cons by simp
qed

lemma fold_fmax2_finite:
  "list_all is_fin xs \<Longrightarrow> fold fmax2 xs (Fin a) = Fin (fold max (map fin_value xs) a)"
proof (induction xs arbitrary: a)
  case Nil
  show ?case by simp
next
  case (Cons x xs)
  then obtain b where "x = Fin b" by (cases x) simp_all
  then show ?case
    using Cons by simp
qed

lemma tensor_min_finite:
  assumes "list_all is_fin (concat (concat t))"
    and "fin_value ` set (concat (concat t)) = S" and "S \<noteq> {}"
  shows "tensor_min t = Inr (Fin (Min S))"
proof (cases "concat (concat t)")
  case Nil
  with assms(2,3) show ?thesis by (simp del: set_concat)
next
  case (Cons x xs)
  with assms(1) obtain a where x: "x = Fin a" and xs: "list_all is_fin xs"
    by (cases x) simp_all
  have "fold min (map fin_value xs) a = Min (set (a # map fin_value xs))"
    by (simp only: Min.set_eq_fold)
  also have "set (a # map fin_value xs) = S"
    using assms(2) Cons x by (simp del: set_concat)
  finally show ?thesis
    using Cons x by (simp add: tensor_min_def fold_fmin2_finite [OF xs])
qed

lemma tensor_max_finite:
  assumes "list_all is_fin (concat (concat t))"
    and "fin_value ` set (concat (concat t)) = S" and "S \<noteq> {}"
  shows "tensor_max t = Inr (Fin (Max S))"
proof (cases "concat (concat t)")
  case Nil
  with assms(2,3) show ?thesis by (simp del: set_concat)
next
  case (Cons x xs)
  with assms(1) obtain a where x: "x = Fin a" and xs: "list_all is_fin xs"
    by (cases x) simp_all
  have "fold max (map fin_value xs) a = Max (set (a # map fin_value xs))"
    by (simp only: Max.set_eq_fold)
  also have "set (a # map fin_value xs) = S"
    using assms(2) Cons x by (simp del: set_concat)
  finally show ?thesis
    using Cons x by (simp add: tensor_max_def fold_fmax2_finite [OF xs])
qed

lemma min_max_constant:
  "tensor_min [replicate 32 (replicate 32 (Fin x))] = Inr (Fin x) \<and>
   tensor_max [replicate 32 (replicate 32 (Fin x))] = Inr (Fin x)"
proof -
  let ?t = "[replicate 32 (replicate 32 (Fin x))]"
  have fin: "list_all is_fin (concat (concat ?t))"
    by (simp add: list_all_iff)
  have vals: "fin_value ` set (concat (concat ?t)) = {x}"
    by simp
  show ?thesis
    using tensor_min_finite [OF fin vals] tensor_max_finite [OF fin vals] by simp
qed

lemma min_max_two_bands:
  assumes "a \<le> b"
  shows "tensor_min [replicate 32 (replicate 32 (Fin a)), replicate 32 (replicate 32 (Fin b))] = Inr (Fin a) \<and>
         tensor_max [replicate 32 (replicate 32 (Fin a)), replicate 32 (replicate 32 (Fin b))] = Inr (Fin b)"
proof -
  let ?t = "[replicate 32 (replicate 32 (Fin a)), replicate 32 (replicate 32 (Fin b))]"
  have fin: "list_all is_fin (concat (concat ?t))"
    by (auto simp: list_all_iff)
  have vals: "fin_value ` set (concat (concat ?t)) = {a, b}"
    by auto
  show ?thesis
    using tensor_min_finite [OF fin vals] tensor_max_finite [OF fin vals] assms
    by (simp add: min_def max_def)
qed

subsection \<open>The contract of \<^verbatim>\<open>__getitem__\<close>\<close>

lemma getitem_eq:
  assumes "k < length (file_paths self)" and "length (labels self) = length (file_paths self)"
    and "np_load (file_paths self ! k) = Inr raw" and "resize_cube kern raw = Inr r"
  shows "getitem kern np_load self (int k) =
           and_then (normalize_cube r) (\<lambda>t. Inr (t, labels self ! k))"
  using assms by (simp add: getitem_def py_index_nat)

text \<open>
  Claim C2, amended. Let the raw array of entry \<open>k\<close> have shape (H, W, C) with positive
  extents, and let the cube obtained from it by the cast and the resize have a finite
  minimum and a finite maximum whose difference \<open>max - min\<close>, as computed in 32-bit
  arithmetic, is finite and not zero; in particular the resized cube is not constant.
  Then \<^verbatim>\<open>__getitem__\<close> returns a tensor of shape (C, 32, 32), whatever H and W are,
  all of whose values are finite and lie in [0, 1], paired with the class index of
  entry \<open>k\<close>. This holds for every value that the interpolation kernel may compute.
\<close>

theorem getitem_contract:
  assumes "k < len (HyperspectralDataset os dir)"
    and "np_load (file_paths (HyperspectralDataset os dir) ! k) = Inr raw"
    and "has_shape (h, w, c) raw" and "0 < h" and "0 < w" and "0 < c"
    and "resize_cube kern raw = Inr r"
    and "tensor_min r = Inr (Fin lo)" and "tensor_max r = Inr (Fin hi)"
    and "fsub (Fin hi) (Fin lo) = Fin d" and "d \<noteq> 0"
  shows "\<exists>t. getitem kern np_load (HyperspectralDataset os dir) (int k) =
               Inr (t, labels (HyperspectralDataset os dir) ! k) \<and>
             has_shape (c, 32, 32) t \<and> list_all (list_all (list_all in_unit)) t"
proof -
  let ?D = "HyperspectralDataset os dir"
  have k: "k < length (file_paths ?D)"
    using assms(1) by (simp add: len_def)
  have same: "length (labels ?D) = length (file_paths ?D)"
    by (simp add: file_paths_indexed labels_indexed)
  have shape: "has_shape (c, 32, 32) r"
    using resize_cube_shape [OF assms(3-6), of kern] assms(7) by simp
  let ?t = "map (map (map (\<lambda>x. fdiv (fsub x (Fin lo)) (fsub (Fin hi) (Fin lo))))) r"
  have "getitem kern np_load ?D (int k) = Inr (?t, labels ?D ! k)"
    using getitem_eq [of k ?D np_load raw kern r, OF k same assms(2) assms(7)]
    by (simp add: normalize_eq [OF assms(8,9)])
  moreover have "has_shape (c, 32, 32) ?t"
    using shape by (simp only: has_shape_map3)
  moreover have "list_all (list_all (list_all in_unit)) ?t"
    using assms(8-11) by (rule normalize_in_unit)
  ultimately show ?thesis by blast
qed


theorem getitem_contract_witness:
  "\<exists>t. getitem bilinear_kernel (\<lambda>path. Inr [[[Fin 0, Fin 1]]])
         (HyperspectralDataset example_disk ''d'') 0 = Inr (t, 0) \<and>
       has_shape (2, 32, 32) t \<and> list_all (list_all (list_all in_unit)) t"
proof -
  have r: "resize_cube bilinear_kernel [[[Fin 0, Fin 1]]] =
             Inr [replicate 32 (replicate 32 (Fin 0)), replicate 32 (replicate 32 (Fin 1))]"
    by (simp add: resize_pixel round_to32_zero round_to32_one)
  have lo: "tensor_min [replicate 32 (replicate 32 (Fin 0)), replicate 32 (replicate 32 (Fin 1))] = Inr (Fin 0)"
    using min_max_two_bands [of 0 1] by simp
  have hi: "tensor_max [replicate 32 (replicate 32 (Fin 0)), replicate 32 (replicate 32 (Fin 1))] = Inr (Fin 1)"
    using min_max_two_bands [of 0 1] by simp
  have d: "fsub (Fin 1) (Fin 0) = Fin 1"
    by (simp add: round_to32_one)
  have k: "0 < len (HyperspectralDataset example_disk ''d'')"
    by (simp add: len_def example_disk_dataset)
  have sh: "has_shape (1, 1, 2) [[[Fin 0, Fin 1]]]"
    by (simp add: has_shape_def)
  have "\<exists>t. getitem bilinear_kernel (\<lambda>path. Inr [[[Fin 0, Fin 1]]])
               (HyperspectralDataset example_disk ''d'') (int 0) =
               Inr (t, labels (HyperspectralDataset example_disk ''d'') ! 0) \<and>
             has_shape (2, 32, 32) t \<and> list_all (list_all (list_all in_unit)) t"
    using getitem_contract [of 0 example_disk "''d''" "\<lambda>path. Inr [[[Fin 0, Fin 1]]]"
        "[[[Fin 0, Fin 1]]]" 1 1 2 bilinear_kernel _ 0 1 1, OF k _ sh _ _ _ r lo hi d]
    by simp
  then show ?thesis
    by (simp add: example_disk_dataset)
qed


text \<open>
  Claim C2, as stated, fails: it asks only that the raw array be not constant. The raw
  array \<open>alt_column\<close> of shape (64, 1, 1) is not constant, but halving its 64 rows
  averages each pair (0, 1), so the resized cube is constant 1/2 and every returned
  value is NaN. All the numbers involved are 32-bit floats, so no rounding occurs.
\<close>

theorem getitem_range_counterexample:
  "has_shape (64, 1, 1) alt_column \<and>
   alt_column ! 0 ! 0 ! 0 = Fin 0 \<and> alt_column ! 1 ! 0 ! 0 = Fin 1 \<and>
   getitem bilinear_kernel (\<lambda>path. Inr alt_column) (HyperspectralDataset example_disk ''d'') 0 =
     Inr ([replicate 32 (replicate 32 NaN)], 0) \<and>
   \<not> in_unit NaN"
proof -
  have sh: "has_shape (64, 1, 1) alt_column"
    by (simp add: has_shape_def alt_column_def list_all_iff)
  have nc: "alt_column ! 0 ! 0 ! 0 = Fin 0 \<and> alt_column ! 1 ! 0 ! 0 = Fin 1"
    by (simp add: alt_column_def)
  have lo: "tensor_min [replicate 32 (replicate 32 (Fin (1 / 2)))] = Inr (Fin (1 / 2))"
    using min_max_constant [of "1 / 2"] by simp
  have hi: "tensor_max [replicate 32 (replicate 32 (Fin (1 / 2)))] = Inr (Fin (1 / 2))"
    using min_max_constant [of "1 / 2"] by simp
  have "getitem bilinear_kernel (\<lambda>path. Inr alt_column) (HyperspectralDataset example_disk ''d'') (int 0) =
     and_then (normalize_cube [replicate 32 (replicate 32 (Fin (1 / 2)))])
       (\<lambda>t. Inr (t, labels (HyperspectralDataset example_disk ''d'') ! 0))"
    using getitem_eq [of 0 "HyperspectralDataset example_disk ''d''" "\<lambda>path. Inr alt_column"
        alt_column bilinear_kernel, OF _ _ _ resize_alt_column]
    by (simp add: example_disk_dataset)
  then have g: "getitem bilinear_kernel (\<lambda>path. Inr alt_column) (HyperspectralDataset example_disk ''d'') 0 =
     Inr ([replicate 32 (replicate 32 NaN)], 0)"
    by (simp add: normalize_constant(2) [OF lo hi] example_disk_dataset)
  show ?thesis
    using sh nc g by (simp add: in_unit_def)
qed

text \<open>
  The condition on the computed range cannot be dropped. The array \<open>wide_pixel\<close> is
  finite and its resized cube is not constant, but \<open>max - min = 2\<^sup>1\<^sup>2\<^sup>8\<close> overflows to
  infinity, and the band that holds the maximum comes out as NaN.
\<close>

lemma range_overflow_example:
  "getitem bilinear_kernel (\<lambda>path. Inr wide_pixel) (HyperspectralDataset example_disk ''d'') 0 =
     Inr ([replicate 32 (replicate 32 (Fin 0)), replicate 32 (replicate 32 NaN)], 0)"
proof -
  let ?r = "[replicate 32 (replicate 32 (Fin (- pow127))), replicate 32 (replicate 32 (Fin pow127))]"
  have "resize_cube bilinear_kernel [[[Fin (- pow127), Fin pow127]]] =
          Inr (map (\<lambda>x. replicate 32 (replicate 32 x)) [Fin (- pow127), Fin pow127])"
    by (rule resize_pixel) (simp add: round_to32_pow127 round_to32_minus_pow127)
  then have r: "resize_cube bilinear_kernel wide_pixel = Inr ?r"
    by (simp add: wide_pixel_def)
  have le: "- pow127 \<le> pow127"
    using pow127_pos by linarith
  have lo: "tensor_min ?r = Inr (Fin (- pow127))"
    using min_max_two_bands [OF le] by simp
  have hi: "tensor_max ?r = Inr (Fin pow127)"
    using min_max_two_bands [OF le] by simp
  have n: "normalize_cube ?r = Inr [replicate 32 (replicate 32 (Fin 0)), replicate 32 (replicate 32 NaN)]"
    by (simp add: normalize_eq [OF lo hi] round_to32_pow128 round_to32_zero)
  have "getitem bilinear_kernel (\<lambda>path. Inr wide_pixel) (HyperspectralDataset example_disk ''d'') (int 0) =
     and_then (normalize_cube ?r) (\<lambda>t. Inr (t, labels (HyperspectralDataset example_disk ''d'') ! 0))"
    using getitem_eq [of 0 "HyperspectralDataset example_disk ''d''" "\<lambda>path. Inr wide_pixel"
        wide_pixel bilinear_kernel, OF _ _ _ r]
    by (simp add: example_disk_dataset)
  then show ?thesis
    by (simp add: n example_disk_dataset)
qed

section \<open>Properties of the training loop\<close>

lemma batch_step_eq:
  assumes "forward lib (training m) (params m) (rng m) (fst b) = Inr res"
  shows "batch_step lib ph (m, rl, rc) b =
           Inr (machine_after lib ph m b, rl + batch_loss lib m b * real (length (fst b)),
                add_tensor rc (batch_corrects lib m b))"
  using assms
  by (cases b) (simp add: batch_step_def machine_after_def batch_loss_def batch_corrects_def Let_def)

lemma add_tensor_val: "add_tensor rc n = Tensor (corrects_val rc + n)"
  by (cases rc) simp_all

lemma run_batches_eq:
  assumes total: "\<And>tr p r xs. \<exists>y. forward lib tr p r xs = Inr y"
  shows "run_batches lib ph (m, rl, rc) bs =
           Inr (machine_after_batches lib ph m bs, rl + scaled_loss_sum lib ph m bs,
                (if bs = [] then rc else Tensor (corrects_val rc + corrects_sum lib ph m bs)))"
proof (induction bs arbitrary: m rl rc)
  case Nil
  show ?case by (simp add: machine_after_batches_def)
next
  case (Cons b bs)
  obtain res where res: "forward lib (training m) (params m) (rng m) (fst b) = Inr res"
    using total by blast
  show ?case
    by (simp add: batch_step_eq [OF res] Cons.IH machine_after_batches_def add_tensor_val)
qed


lemma run_phase_eq:
  assumes total: "\<And>tr p r xs. \<exists>y. forward lib tr p r xs = Inr y"
    and nonempty: "\<And>ph r. fst (batches dl ph r) \<noteq> []"
    and pos: "\<And>ph. 0 < dataset_len dl ph"
  shows "run_phase lib dl ph st =
     Inr ((if ph = Train
           then st\<lparr>model := machine_after_phase lib dl ph (model st),
                   train_loss := train_loss st @ [epoch_loss_of lib dl ph (model st)]\<rparr>
           else st\<lparr>model := machine_after_phase lib dl ph (model st),
                   val_acc := val_acc st @ [epoch_acc_of lib dl ph (model st)]\<rparr>)
          \<lparr>printed := printed st @
             [(ph, epoch_loss_of lib dl ph (model st), epoch_acc_of lib dl ph (model st))]\<rparr>)"
proof -
  have ne: "fst (batches dl ph (rng (model st))) \<noteq> []"
    by (rule nonempty)
  have len: "dataset_len dl ph \<noteq> 0"
    using pos [of ph] by simp
  show ?thesis
    unfolding run_phase_def Let_def
    by (simp add: run_batches_eq [OF total] ne len py_truediv_def
        machine_after_phase_def phase_start_def phase_batches_def epoch_loss_of_def epoch_acc_of_def)
qed

lemma machine_at_epoch_shift:
  "machine_at_epoch lib dl
     (machine_after_phase lib dl Val (machine_after_phase lib dl Train m)) e =
   machine_at_epoch lib dl m (Suc e)"
  by (induction e) simp_all

lemma map_upt_shift: "map f [0..<Suc n] = f 0 # map (\<lambda>e. f (Suc e)) [0..<n]"
proof -
  have "[0..<Suc n] = 0 # [Suc 0..<Suc n]"
    by (rule upt_conv_Cons) simp
  also have "[Suc 0..<Suc n] = map Suc [0..<n]"
    by (simp only: map_Suc_upt)
  finally have "[0..<Suc n] = 0 # map Suc [0..<n]" .
  then have "map f [0..<Suc n] = map f (0 # map Suc [0..<n])"
    by (rule arg_cong)
  then show ?thesis
    by (simp only: list.map map_map comp_def)
qed

lemma run_epochs_eq:
  assumes total: "\<And>tr p r xs. \<exists>y. forward lib tr p r xs = Inr y"
    and nonempty: "\<And>ph r. fst (batches dl ph r) \<noteq> []"
    and pos: "\<And>ph. 0 < dataset_len dl ph"
  shows "\<exists>st'. run_epochs lib dl n st = Inr st' \<and>
           model st' = machine_at_epoch lib dl (model st) n \<and>
           train_loss st' = train_loss st @
             map (\<lambda>e. epoch_loss_of lib dl Train (machine_at_epoch lib dl (model st) e)) [0..<n] \<and>
           val_acc st' = val_acc st @
             map (\<lambda>e. epoch_acc_of lib dl Val
                    (machine_after_phase lib dl Train (machine_at_epoch lib dl (model st) e))) [0..<n]"
proof (induction n arbitrary: st)
  case 0
  show ?case by simp
next
  case (Suc n)
  let ?m1 = "machine_after_phase lib dl Train (model st)"
  let ?m2 = "machine_after_phase lib dl Val ?m1"
  obtain st1 where st1: "run_epoch lib dl st = Inr st1" and m1: "model st1 = ?m2"
    and tl1: "train_loss st1 = train_loss st @ [epoch_loss_of lib dl Train (model st)]"
    and va1: "val_acc st1 = val_acc st @ [epoch_acc_of lib dl Val ?m1]"
    by (simp add: run_epoch_def run_phase_eq [OF total nonempty pos])
  obtain st' where run: "run_epochs lib dl n st1 = Inr st'"
    and m': "model st' = machine_at_epoch lib dl (model st1) n"
    and tl': "train_loss st' = train_loss st1 @
             map (\<lambda>e. epoch_loss_of lib dl Train (machine_at_epoch lib dl (model st1) e)) [0..<n]"
    and va': "val_acc st' = val_acc st1 @
             map (\<lambda>e. epoch_acc_of lib dl Val
                    (machine_after_phase lib dl Train (machine_at_epoch lib dl (model st1) e))) [0..<n]"
    using Suc.IH [of st1] by blast
  have "run_epochs lib dl (Suc n) st = Inr st'"
    by (simp add: st1 run)
  moreover have "model st' = machine_at_epoch lib dl (model st) (Suc n)"
    unfolding m' m1 by (rule machine_at_epoch_shift)
  moreover have "train_loss st' = train_loss st @
             map (\<lambda>e. epoch_loss_of lib dl Train (machine_at_epoch lib dl (model st) e)) [0..<Suc n]"
    unfolding tl' tl1 m1 machine_at_epoch_shift
    by (subst map_upt_shift) simp
  moreover have "val_acc st' = val_acc st @
             map (\<lambda>e. epoch_acc_of lib dl Val
                    (machine_after_phase lib dl Train (machine_at_epoch lib dl (model st) e))) [0..<Suc n]"
    unfolding va' va1 m1 machine_at_epoch_shift
    by (subst map_upt_shift) simp
  ultimately show ?case by blast
qed

lemma toy_val_phase:
  "run_phase toy_torch toy_loaders Val toy_state =
     Inr \<lparr>model = \<lparr>params = 0, grads = None, training = False, opt_state = (), rng = 1\<rparr>,
          train_loss = [], val_acc = [1 / 2], printed = [(Val, 1 / 2, 1 / 2)]\<rparr>"
  by (simp add: run_phase_def toy_torch_def toy_loaders_def toy_state_def toy_machine_def
      batch_step_def py_truediv_def count_equal_def Let_def)

lemma toy_train_model:
  "train_model toy_torch toy_loaders toy_machine 2 =
     Inr (\<lparr>params = - 2, grads = None, training = False, opt_state = (), rng = 4\<rparr>,
          [1 / 2, 1 / 2], [1 / 2, 1 / 2])"
  by (simp add: train_model_def numeral_2_eq_2 run_epoch_def run_phase_def toy_torch_def toy_loaders_def
      toy_machine_def batch_step_def py_truediv_def count_equal_def Let_def)

lemma batch_step_val_params:
  assumes "batch_step lib Val (m, rl, rc) b = Inr (m', rl', rc')"
  shows "params m' = params m"
  using assms
  by (cases b) (auto simp: batch_step_def Let_def and_then_def split: sum.splits)

lemma run_batches_val_params:
  "run_batches lib Val acc bs = Inr acc' \<Longrightarrow> params (fst acc') = params (fst acc)"
proof (induction bs arbitrary: acc)
  case Nil
  then show ?case by simp
next
  case (Cons b bs)
  from Cons.prems obtain mid where mid: "batch_step lib Val acc b = Inr mid"
    and rest: "run_batches lib Val mid bs = Inr acc'"
    by (cases "batch_step lib Val acc b") simp_all
  have "params (fst mid) = params (fst acc)"
    using mid batch_step_val_params [of lib "fst acc" "fst (snd acc)" "snd (snd acc)" b "fst mid" "fst (snd mid)" "snd (snd mid)"]
    by simp
  then show ?case
    using Cons.IH [OF rest] by simp
qed

lemma batch_step_train_params:
  assumes "batch_step lib Train (m, rl, rc) b = Inr (m', rl', rc')"
  shows "params m' =
           snd (step lib (opt_state m) (params m)
                  (backward lib None (training m) (params m) (rng m) (fst b) (snd b)))"
  using assms
  by (cases b) (auto simp: batch_step_def Let_def and_then_def split: sum.splits)

lemma run_phase_val_params:
  assumes "run_phase lib dl Val st = Inr st'"
  shows "params (model st') = params (model st)"
proof -
  let ?m0 = "(model st)\<lparr>training := False\<rparr>"
  let ?m1 = "?m0\<lparr>rng := snd (batches dl Val (rng ?m0))\<rparr>"
  from assms obtain acc where acc: "run_batches lib Val (?m1, 0, PyInt 0) (fst (batches dl Val (rng ?m0))) = Inr acc"
    and st': "model st' = fst acc"
    by (cases "run_batches lib Val (?m1, 0, PyInt 0) (fst (batches dl Val (rng ?m0)))")
       (auto simp: run_phase_def Let_def and_then_def py_truediv_def split: sum.splits prod.splits if_splits)
  have "params (fst acc) = params ?m1"
    using run_batches_val_params [OF acc] by simp
  then show ?thesis
    by (simp add: st')
qed

text \<open>
  Claim C8. A val phase that completes leaves the parameters of the model as they were:
  no batch of a val phase changes them. In a train phase the parameters after a batch
  are those that \<^verbatim>\<open>optimizer.step()\<close> returns.
\<close>

theorem val_phase_frame:
  "(run_phase lib dl Val st = Inr st' \<longrightarrow> params (model st') = params (model st)) \<and>
   (batch_step lib Val (m, rl, rc) b = Inr (m', rl', rc') \<longrightarrow> params m' = params m) \<and>
   (batch_step lib Train (m, rl, rc) b = Inr (m', rl', rc') \<longrightarrow>
      params m' = snd (step lib (opt_state m) (params m)
                         (backward lib None (training m) (params m) (rng m) (fst b) (snd b))))"
  using run_phase_val_params [of lib dl st st'] batch_step_val_params [of lib m rl rc b m' rl' rc']
    batch_step_train_params [of lib m rl rc b m' rl' rc']
  by blast

theorem val_phase_frame_witness:
  "run_phase toy_torch toy_loaders Val toy_state =
     Inr \<lparr>model = \<lparr>params = 0, grads = None, training = False, opt_state = (), rng = 1\<rparr>,
          train_loss = [], val_acc = [1 / 2], printed = [(Val, 1 / 2, 1 / 2)]\<rparr> \<and>
   params (model toy_state) = 0"
  using val_phase_frame [of toy_torch toy_loaders toy_state
      "\<lparr>model = \<lparr>params = 0, grads = None, training = False, opt_state = (), rng = 1\<rparr>,
          train_loss = [], val_acc = [1 / 2], printed = [(Val, 1 / 2, 1 / 2)]\<rparr>"]
    toy_val_phase
  by simp

lemma batch_step_Inr:
  assumes "batch_step lib ph (m, rl, rc) b = Inr acc'"
  shows "acc' = (machine_after lib ph m b, rl + batch_loss lib m b * real (length (fst b)),
                 add_tensor rc (batch_corrects lib m b))"
proof (cases "forward lib (training m) (params m) (rng m) (fst b)")
  case (Inl e)
  with assms show ?thesis
    by (cases b) (simp add: batch_step_def Let_def)
next
  case (Inr res)
  show ?thesis
    using assms unfolding batch_step_eq [OF Inr] by simp
qed

lemma run_batches_Inr:
  "run_batches lib ph (m, rl, rc) bs = Inr acc' \<Longrightarrow>
     acc' = (machine_after_batches lib ph m bs, rl + scaled_loss_sum lib ph m bs,
             (if bs = [] then rc else Tensor (corrects_val rc + corrects_sum lib ph m bs)))"
proof (induction bs arbitrary: m rl rc)
  case Nil
  then show ?case by (simp add: machine_after_batches_def)
next
  case (Cons b bs)
  from Cons.prems obtain mid where mid: "batch_step lib ph (m, rl, rc) b = Inr mid"
    and rest: "run_batches lib ph mid bs = Inr acc'"
    by (cases "batch_step lib ph (m, rl, rc) b") simp_all
  have mid_eq: "mid = (machine_after lib ph m b, rl + batch_loss lib m b * real (length (fst b)),
                 add_tensor rc (batch_corrects lib m b))"
    using mid by (rule batch_step_Inr)
  show ?case
    using Cons.IH [OF rest [unfolded mid_eq]]
    by (simp add: machine_after_batches_def add_tensor_val)
qed

lemma run_phase_Inr:
  assumes "run_phase lib dl ph st = Inr st'"
  shows "st' = (if ph = Train
           then st\<lparr>model := machine_after_phase lib dl ph (model st),
                   train_loss := train_loss st @ [epoch_loss_of lib dl ph (model st)]\<rparr>
           else st\<lparr>model := machine_after_phase lib dl ph (model st),
                   val_acc := val_acc st @ [epoch_acc_of lib dl ph (model st)]\<rparr>)
          \<lparr>printed := printed st @
             [(ph, epoch_loss_of lib dl ph (model st), epoch_acc_of lib dl ph (model st))]\<rparr>"
proof -
  let ?m0 = "(model st)\<lparr>training := (ph = Train)\<rparr>"
  let ?bs = "fst (batches dl ph (rng ?m0))"
  let ?m1 = "?m0\<lparr>rng := snd (batches dl ph (rng ?m0))\<rparr>"
  from assms obtain acc where acc: "run_batches lib ph (?m1, 0, PyInt 0) ?bs = Inr acc"
    by (cases "run_batches lib ph (?m1, 0, PyInt 0) ?bs") (simp_all add: run_phase_def Let_def)
  have acc_eq: "acc = (machine_after_batches lib ph ?m1 ?bs, 0 + scaled_loss_sum lib ph ?m1 ?bs,
             (if ?bs = [] then PyInt 0 else Tensor (corrects_val (PyInt 0) + corrects_sum lib ph ?m1 ?bs)))"
    using acc by (rule run_batches_Inr)
  have len: "dataset_len dl ph \<noteq> 0"
    using assms unfolding run_phase_def Let_def acc acc_eq
    by (auto simp: py_truediv_def split: if_splits)
  have ne: "?bs \<noteq> []"
    using assms len unfolding run_phase_def Let_def acc acc_eq
    by (auto simp: py_truediv_def split: if_splits)
  show ?thesis
    using assms len ne unfolding run_phase_def Let_def acc acc_eq
    by (auto simp add: py_truediv_def
        machine_after_phase_def phase_start_def phase_batches_def epoch_loss_of_def epoch_acc_of_def)
qed

lemma run_epochs_Inr:
  "run_epochs lib dl n st = Inr st' \<Longrightarrow>
     model st' = machine_at_epoch lib dl (model st) n \<and>
     train_loss st' = train_loss st @
       map (\<lambda>e. epoch_loss_of lib dl Train (machine_at_epoch lib dl (model st) e)) [0..<n] \<and>
     val_acc st' = val_acc st @
       map (\<lambda>e. epoch_acc_of lib dl Val
              (machine_after_phase lib dl Train (machine_at_epoch lib dl (model st) e))) [0..<n]"
proof (induction n arbitrary: st)
  case 0
  then show ?case by simp
next
  case (Suc n)
  let ?m1 = "machine_after_phase lib dl Train (model st)"
  let ?m2 = "machine_after_phase lib dl Val ?m1"
  from Suc.prems obtain st1 where st1: "run_epoch lib dl st = Inr st1"
    and rest: "run_epochs lib dl n st1 = Inr st'"
    by (cases "run_epoch lib dl st") simp_all
  from st1 obtain sta where sta: "run_phase lib dl Train st = Inr sta"
    and stb: "run_phase lib dl Val sta = Inr st1"
    by (cases "run_phase lib dl Train st") (simp_all add: run_epoch_def)
  have a: "model sta = ?m1 \<and> train_loss sta = train_loss st @ [epoch_loss_of lib dl Train (model st)]
      \<and> val_acc sta = val_acc st"
    using run_phase_Inr [OF sta] by simp
  have b: "model st1 = machine_after_phase lib dl Val (model sta) \<and> train_loss st1 = train_loss sta
      \<and> val_acc st1 = val_acc sta @ [epoch_acc_of lib dl Val (model sta)]"
    using run_phase_Inr [OF stb] by simp
  have m1: "model st1 = ?m2" using a b by simp
  have tl1: "train_loss st1 = train_loss st @ [epoch_loss_of lib dl Train (model st)]"
    using a b by simp
  have va1: "val_acc st1 = val_acc st @ [epoch_acc_of lib dl Val ?m1]"
    using a b by simp
  note ih = Suc.IH [OF rest]
  have "model st' = machine_at_epoch lib dl (model st) (Suc n)"
    using ih unfolding m1 machine_at_epoch_shift by simp
  moreover have "train_loss st' = train_loss st @
             map (\<lambda>e. epoch_loss_of lib dl Train (machine_at_epoch lib dl (model st) e)) [0..<Suc n]"
    using ih unfolding tl1 m1 machine_at_epoch_shift
    by (subst map_upt_shift) simp
  moreover have "val_acc st' = val_acc st @
             map (\<lambda>e. epoch_acc_of lib dl Val
                    (machine_after_phase lib dl Train (machine_at_epoch lib dl (model st) e))) [0..<Suc n]"
    using ih unfolding va1 m1 machine_at_epoch_shift
    by (subst map_upt_shift) simp
  ultimately show ?case by blast
qed

lemma train_model_Inr:
  assumes "train_model lib dl m n = Inr (m', losses, accs)"
  shows "m' = machine_at_epoch lib dl m n \<and>
         losses = map (\<lambda>e. epoch_loss_of lib dl Train (machine_at_epoch lib dl m e)) [0..<n] \<and>
         accs = map (\<lambda>e. epoch_acc_of lib dl Val
                     (machine_after_phase lib dl Train (machine_at_epoch lib dl m e))) [0..<n]"
proof -
  let ?st0 = "\<lparr>model = m, train_loss = [], val_acc = [], printed = []\<rparr>"
  from assms obtain st' where run: "run_epochs lib dl n ?st0 = Inr st'"
    and res: "m' = model st'" "losses = train_loss st'" "accs = val_acc st'"
    by (cases "run_epochs lib dl n ?st0") (simp_all add: train_model_def)
  show ?thesis
    using run_epochs_Inr [OF run] res by simp
qed

text \<open>
  Claim C7. Whenever a phase completes, it has appended exactly one value to the history
  of its kind: a train phase its epoch loss to \<open>train_loss\<close>, a val phase its epoch
  accuracy to \<open>val_acc\<close>, and the printed line carries both. The epoch loss is the sum
  over the batches of the pass of the batch loss times the batch size, divided by the
  subset size; the epoch accuracy is the number of correct predictions divided by the
  subset size. Whenever \<^verbatim>\<open>train_model\<close> returns, each history has one entry per epoch,
  the entry of epoch \<open>e\<close> being the metric of that epoch's phase. And the loop does
  complete when the forward pass never raises, every pass of a loader yields at least
  one batch, and both subsets are non-empty.
\<close>

theorem train_model_metrics:
  "(run_phase lib dl ph st = Inr st' \<longrightarrow>
      st' = (if ph = Train
             then st\<lparr>model := machine_after_phase lib dl ph (model st),
                     train_loss := train_loss st @ [epoch_loss_of lib dl ph (model st)]\<rparr>
             else st\<lparr>model := machine_after_phase lib dl ph (model st),
                     val_acc := val_acc st @ [epoch_acc_of lib dl ph (model st)]\<rparr>)
            \<lparr>printed := printed st @
               [(ph, epoch_loss_of lib dl ph (model st), epoch_acc_of lib dl ph (model st))]\<rparr>) \<and>
   epoch_loss_of lib dl ph (model st) =
     scaled_loss_sum lib ph (phase_start dl ph (model st)) (phase_batches dl ph (model st))
       / real (dataset_len dl ph) \<and>
   epoch_acc_of lib dl ph (model st) =
     real_of_int (corrects_sum lib ph (phase_start dl ph (model st)) (phase_batches dl ph (model st)))
       / real (dataset_len dl ph) \<and>
   (train_model lib dl m n = Inr (m', losses, accs) \<longrightarrow>
      m' = machine_at_epoch lib dl m n \<and>
      losses = map (\<lambda>e. epoch_loss_of lib dl Train (machine_at_epoch lib dl m e)) [0..<n] \<and>
      accs = map (\<lambda>e. epoch_acc_of lib dl Val
                    (machine_after_phase lib dl Train (machine_at_epoch lib dl m e))) [0..<n] \<and>
      length losses = n \<and> length accs = n) \<and>
   ((\<forall>tr p r xs. \<exists>y. forward lib tr p r xs = Inr y) \<and>
    (\<forall>ph r. fst (batches dl ph r) \<noteq> []) \<and>
    (\<forall>ph. 0 < dataset_len dl ph) \<longrightarrow>
      (\<exists>st'. run_phase lib dl ph st = Inr st') \<and>
      (\<exists>res. train_model lib dl m n = Inr res))"
proof -
  have a: "run_phase lib dl ph st = Inr st' \<longrightarrow>
      st' = (if ph = Train
             then st\<lparr>model := machine_after_phase lib dl ph (model st),
                     train_loss := train_loss st @ [epoch_loss_of lib dl ph (model st)]\<rparr>
             else st\<lparr>model := machine_after_phase lib dl ph (model st),
                     val_acc := val_acc st @ [epoch_acc_of lib dl ph (model st)]\<rparr>)
            \<lparr>printed := printed st @
               [(ph, epoch_loss_of lib dl ph (model st), epoch_acc_of lib dl ph (model st))]\<rparr>"
    using run_phase_Inr [of lib dl ph st st'] by blast
  have b: "train_model lib dl m n = Inr (m', losses, accs) \<longrightarrow>
      m' = machine_at_epoch lib dl m n \<and>
      losses = map (\<lambda>e. epoch_loss_of lib dl Train (machine_at_epoch lib dl m e)) [0..<n] \<and>
      accs = map (\<lambda>e. epoch_acc_of lib dl Val
                    (machine_after_phase lib dl Train (machine_at_epoch lib dl m e))) [0..<n] \<and>
      length losses = n \<and> length accs = n"
  proof
    assume r: "train_model lib dl m n = Inr (m', losses, accs)"
    have eqs: "m' = machine_at_epoch lib dl m n \<and>
      losses = map (\<lambda>e. epoch_loss_of lib dl Train (machine_at_epoch lib dl m e)) [0..<n] \<and>
      accs = map (\<lambda>e. epoch_acc_of lib dl Val
                    (machine_after_phase lib dl Train (machine_at_epoch lib dl m e))) [0..<n]"
      using r by (rule train_model_Inr)
    then have "length losses = n \<and> length accs = n"
      by simp
    with eqs show "m' = machine_at_epoch lib dl m n \<and>
      losses = map (\<lambda>e. epoch_loss_of lib dl Train (machine_at_epoch lib dl m e)) [0..<n] \<and>
      accs = map (\<lambda>e. epoch_acc_of lib dl Val
                    (machine_after_phase lib dl Train (machine_at_epoch lib dl m e))) [0..<n] \<and>
      length losses = n \<and> length accs = n"
      by blast
  qed
  have c: "(\<exists>st'. run_phase lib dl ph st = Inr st') \<and> (\<exists>res. train_model lib dl m n = Inr res)"
    if total: "\<forall>tr p r xs. \<exists>y. forward lib tr p r xs = Inr y"
      and nonempty: "\<forall>ph r. fst (batches dl ph r) \<noteq> []"
      and pos: "\<forall>ph. 0 < dataset_len dl ph"
  proof -
    have t: "\<And>tr p r xs. \<exists>y. forward lib tr p r xs = Inr y" using total by blast
    have e: "\<And>ph r. fst (batches dl ph r) \<noteq> []" using nonempty by blast
    have p: "\<And>ph. 0 < dataset_len dl ph" using pos by blast
    have "\<exists>st'. run_phase lib dl ph st = Inr st'"
      using run_phase_eq [OF t e p, of ph st] by blast
    moreover have "\<exists>res. train_model lib dl m n = Inr res"
      using run_epochs_eq [OF t e p, of n "\<lparr>model = m, train_loss = [], val_acc = [], printed = []\<rparr>"]
      by (auto simp add: train_model_def)
    ultimately show ?thesis by blast
  qed
  show ?thesis
    using a b c by (simp add: epoch_loss_of_def epoch_acc_of_def)
qed

theorem train_model_metrics_witness:
  "run_phase toy_torch toy_loaders Val toy_state =
     Inr \<lparr>model = \<lparr>params = 0, grads = None, training = False, opt_state = (), rng = 1\<rparr>,
          train_loss = [], val_acc = [1 / 2], printed = [(Val, 1 / 2, 1 / 2)]\<rparr> \<and>
   epoch_acc_of toy_torch toy_loaders Val (model toy_state) = 1 / 2 \<and>
   train_model toy_torch toy_loaders toy_machine 2 =
     Inr (\<lparr>params = - 2, grads = None, training = False, opt_state = (), rng = 4\<rparr>,
          [1 / 2, 1 / 2], [1 / 2, 1 / 2]) \<and>
   [1 / 2, 1 / 2] =
     map (\<lambda>e. epoch_loss_of toy_torch toy_loaders Train
                 (machine_at_epoch toy_torch toy_loaders toy_machine e)) [0..<2] \<and>
   (\<exists>res. train_model toy_torch toy_loaders toy_machine 2 = Inr res)"
proof -
  let ?X = "\<lparr>model = \<lparr>params = 0, grads = None, training = False, opt_state = (), rng = 1\<rparr>,
          train_loss = [], val_acc = [1 / 2], printed = [(Val, 1 / 2, 1 / 2)]\<rparr>
          :: (int, int, unit, nat) loop_state"
  let ?M = "\<lparr>params = - 2, grads = None, training = False, opt_state = (), rng = 4\<rparr>
          :: (int, int, unit, nat) machine"
  note T = train_model_metrics [of toy_torch toy_loaders Val toy_state ?X
      toy_machine 2 ?M "[1 / 2, 1 / 2]" "[1 / 2, 1 / 2]"]
  have total: "\<forall>tr p r xs. \<exists>y. forward toy_torch tr p r xs = Inr y"
    by (simp add: toy_torch_def)
  have nonempty: "\<forall>ph r. fst (batches toy_loaders ph r) \<noteq> []"
    by (simp add: toy_loaders_def)
  have pos: "\<forall>ph. 0 < dataset_len toy_loaders ph"
    by (simp add: toy_loaders_def)
  have "val_acc ?X = val_acc ((if Val = Train
             then toy_state\<lparr>model := machine_after_phase toy_torch toy_loaders Val (model toy_state),
                     train_loss := train_loss toy_state @ [epoch_loss_of toy_torch toy_loaders Val (model toy_state)]\<rparr>
             else toy_state\<lparr>model := machine_after_phase toy_torch toy_loaders Val (model toy_state),
                     val_acc := val_acc toy_state @ [epoch_acc_of toy_torch toy_loaders Val (model toy_state)]\<rparr>)
            \<lparr>printed := printed toy_state @
               [(Val, epoch_loss_of toy_torch toy_loaders Val (model toy_state),
                 epoch_acc_of toy_torch toy_loaders Val (model toy_state))]\<rparr>)"
    using T [THEN conjunct1] toy_val_phase by (intro arg_cong [of _ _ val_acc]) blast
  then have acc: "epoch_acc_of toy_torch toy_loaders Val (model toy_state) = 1 / 2"
    by (simp add: toy_state_def)
  have "[1 / 2, 1 / 2] =
     map (\<lambda>e. epoch_loss_of toy_torch toy_loaders Train
                 (machine_at_epoch toy_torch toy_loaders toy_machine e)) [0..<2]"
    using T [THEN conjunct2, THEN conjunct2, THEN conjunct2, THEN conjunct1] toy_train_model
    by blast
  moreover have "\<exists>res. train_model toy_torch toy_loaders toy_machine 2 = Inr res"
    using T [THEN conjunct2, THEN conjunct2, THEN conjunct2, THEN conjunct2] total nonempty pos
    by blast
  ultimately show ?thesis
    using toy_val_phase toy_train_model acc by blast
qed

end
